theory Spec2Isabelle
  imports Complex_Main "HOL-Library.Word"
begin

section \<open>The pedometer core: data model\<close>

text \<open>
  A shallow embedding of \<^verbatim>\<open>pedometer.h\<close> and \<^verbatim>\<open>pedometer.c\<close>.
  The C type \<^verbatim>\<open>float\<close> is idealised as \<^typ>\<open>real\<close>: sums, products and
  comparisons are exact, and the decimal constants of the source stand for themselves.
  The cumulative step counters are \<^verbatim>\<open>unsigned int\<close> and are modelled as 32-bit
  words, whose addition wraps around. Loop indices, the buffer fill count, the
  per-batch detection counts (at most one per loop iteration, so at most 52) and the
  hold counters (reset as soon as they exceed 2) cannot overflow and are natural numbers.
  Arrays are lists; the global and function-static variables of the C file are the
  fields of one record that every function takes and returns.
\<close>

subsection \<open>Constants of the header\<close>

definition EPSILON :: real where
  "EPSILON = 1 / 1000000"

definition SENSOR_SAMP_FREQ :: nat where
  "SENSOR_SAMP_FREQ = 104"

definition BUFF_FACTOR :: nat where
  "BUFF_FACTOR = 2"

definition SAMP_BUFF_LEN :: nat where
  "SAMP_BUFF_LEN = SENSOR_SAMP_FREQ div BUFF_FACTOR"

definition MAX_TC_SAMPLES :: nat where
  "MAX_TC_SAMPLES = 20"

subsection \<open>Constants local to the detector\<close>

definition VERY_HIGH_VAL :: real where
  "VERY_HIGH_VAL = 100000"

definition NO_DETECT_DUR_SEC :: real where
  "NO_DETECT_DUR_SEC = 2 / 10"

definition CLOSE_TO_ZERO :: real where
  "CLOSE_TO_ZERO = 15 / 10"

definition MAX_TIME_PERIOD_SEC :: real where
  "MAX_TIME_PERIOD_SEC = 15 / 10"

definition SMALL_AMP :: real where
  "SMALL_AMP = 5"

definition LARGE_AMP :: real where
  "LARGE_AMP = 15"

definition SLOW_FREQ :: real where
  "SLOW_FREQ = 5 / 10"

definition FAST_FREQ :: real where
  "FAST_FREQ = 22 / 10"

subsection \<open>Types of the header\<close>

record filter_t =
  b0 :: real
  b1 :: real
  b2 :: real
  a1 :: real
  a2 :: real
  prev_in :: real
  prev_prev_in :: real
  prev_out :: real
  prev_prev_out :: real
  TC_samples :: nat

datatype motion_type_t = STATIC | WALK | HOP | RUN

record algo_out_t =
  step_count :: "32 word"
  step_type :: motion_type_t
  prev_max :: real
  prev_min :: real
  prev_max_ts :: real
  prev_min_ts :: real

subsection \<open>The program state\<close>

text \<open>
  The file-scope variables (only the y-axis filters are ever used), the two rows of
  \<^verbatim>\<open>AccBuff\<close> that are written (\<^verbatim>\<open>AccBuff[CHY]\<close> and \<^verbatim>\<open>AccBuff[CHZ+1]\<close>),
  the static \<^verbatim>\<open>count\<close> of \<^verbatim>\<open>step_algo_preproc\<close> and the statics of
  \<^verbatim>\<open>step_algo_run\<close>.
\<close>

record globals =
  lp_filter_y :: filter_t
  ll_filter_y :: filter_t
  step_algo_output :: algo_out_t
  AccBuff_CHY :: "real list"
  AccBuff_TS :: "real list"
  num_steps_walk :: "32 word"
  num_steps_run :: "32 word"
  num_steps_hop :: "32 word"
  count :: nat
  prev_amp_est :: real
  prev_freq_est :: real
  amp_est_hold :: nat
  freq_est_hold :: nat
  prevAccDer :: real
  AccFilt :: "real list"
  TimeStamps :: "real list"
  AccDer :: "real list"

text \<open>
  The variables of the extremum loop of \<^verbatim>\<open>step_algo_run\<close>: its locals, and
  \<^verbatim>\<open>prevAccDer\<close>, the one static the loop assigns.
\<close>

record locals =
  prev_max_val :: real
  prev_max_ts :: real
  prev_min_val :: real
  prev_min_ts :: real
  new_max_val :: real
  new_max_ts :: real
  new_min_val :: real
  new_min_ts :: real
  avg_max_val :: real
  avg_min_val :: real
  avg_time_period :: real
  amp_est :: real
  count_max_det :: nat
  count_min_det :: nat
  prevAccDer :: real

section \<open>The operations\<close>

subsection \<open>A counted loop\<close>

text \<open>\<^verbatim>\<open>for (i = 0; i < n; i++) body(i)\<close> on a state.\<close>

fun for_loop :: "nat \<Rightarrow> (nat \<Rightarrow> 's \<Rightarrow> 's) \<Rightarrow> 's \<Rightarrow> 's" where
  "for_loop 0 body s = s"
| "for_loop (Suc n) body s = body n (for_loop n body s)"

subsection \<open>The second-order filter\<close>

definition apply_filter :: "filter_t \<Rightarrow> real \<Rightarrow> real \<times> filter_t" where
  "apply_filter filt_data in_data =
     (let out_data = (b0 filt_data * in_data) + (b1 filt_data * prev_in filt_data)
            + (b2 filt_data * prev_prev_in filt_data)
            - (a1 filt_data * prev_out filt_data) - (a2 filt_data * prev_prev_out filt_data)
      in (out_data,
          filt_data\<lparr>prev_prev_in := prev_in filt_data,
                    prev_in := in_data,
                    prev_prev_out := prev_out filt_data,
                    prev_out := out_data\<rparr>))"

subsection \<open>Preprocessing of one sample\<close>

definition step_algo_preproc ::
  "real \<Rightarrow> real \<Rightarrow> real \<Rightarrow> real \<Rightarrow> real \<Rightarrow> real \<Rightarrow> real \<Rightarrow> globals \<Rightarrow> nat \<times> globals" where
  "step_algo_preproc timestamp arx ary arz grx gry grz g =
     (let (ary_flt, lp) = apply_filter (lp_filter_y g) ary;
          g1 = g\<lparr>lp_filter_y := lp,
                 AccBuff_CHY := (AccBuff_CHY g)[count g := ary_flt],
                 AccBuff_TS := (AccBuff_TS g)[count g := timestamp],
                 count := count g + 1\<rparr>
      in if count g1 = SAMP_BUFF_LEN then (1, g1\<lparr>count := 0\<rparr>) else (0, g1))"

subsection \<open>The detector\<close>

text \<open>The body of the first loop: the derivative and the extended buffers.\<close>

definition deriv_body :: "nat \<Rightarrow> nat \<Rightarrow> globals \<Rightarrow> globals" where
  "deriv_body TC i g =
     (let (d, ll) = apply_filter (ll_filter_y g) (AccBuff_CHY g ! i)
      in g\<lparr>ll_filter_y := ll,
            AccDer := (AccDer g)[i := d],
            AccFilt := (AccFilt g)[TC + i := AccBuff_CHY g ! i],
            TimeStamps := (TimeStamps g)[TC + i := AccBuff_TS g ! i]\<rparr>)"

text \<open>The values of the locals when the extremum loop starts.\<close>

definition init_locals :: "globals \<Rightarrow> locals" where
  "init_locals g =
     \<lparr>prev_max_val = prev_max (step_algo_output g),
      prev_max_ts = algo_out_t.prev_max_ts (step_algo_output g),
      prev_min_val = prev_min (step_algo_output g),
      prev_min_ts = algo_out_t.prev_min_ts (step_algo_output g),
      new_max_val = - VERY_HIGH_VAL,
      new_max_ts = 0,
      new_min_val = VERY_HIGH_VAL,
      new_min_ts = 0,
      avg_max_val = 0,
      avg_min_val = 0,
      avg_time_period = 0,
      amp_est = 0,
      count_max_det = 0,
      count_min_det = 0,
      prevAccDer = globals.prevAccDer g\<rparr>"

text \<open>
  The maximum branch once the falling zero crossing has passed the dead-time test
  (lines 300 to 315), and the minimum branch after its own (lines 324 to 340).
\<close>

definition max_candidate :: "real list \<Rightarrow> real list \<Rightarrow> nat \<Rightarrow> locals \<Rightarrow> locals" where
  "max_candidate accFilt timeStamps i l =
     (let l1 = l\<lparr>new_max_val := accFilt ! i\<rparr>
      in if \<bar>new_max_val l1\<bar> > CLOSE_TO_ZERO then
           (let l2 = l1\<lparr>new_max_ts := timeStamps ! i\<rparr>;
                l3 = (if new_max_ts l2 > prev_max_ts l2 + MAX_TIME_PERIOD_SEC
                      then l2\<lparr>prev_max_ts := new_max_ts l2 - MAX_TIME_PERIOD_SEC\<rparr>
                      else l2)
            in if new_max_val l3 - prev_min_val l3 > CLOSE_TO_ZERO then
                 l3\<lparr>avg_time_period := avg_time_period l3 + (new_max_ts l3 - prev_max_ts l3),
                    avg_max_val := avg_max_val l3 + new_max_val l3,
                    count_max_det := count_max_det l3 + 1,
                    prev_max_ts := new_max_ts l3,
                    prev_max_val := new_max_val l3\<rparr>
               else l3)
         else l1)"

definition min_candidate :: "real list \<Rightarrow> real list \<Rightarrow> nat \<Rightarrow> locals \<Rightarrow> locals" where
  "min_candidate accFilt timeStamps i l =
     (let l2 = l\<lparr>new_min_val := accFilt ! i, new_min_ts := timeStamps ! i\<rparr>;
          l3 = (if new_min_ts l2 > prev_min_ts l2 + MAX_TIME_PERIOD_SEC
                then l2\<lparr>prev_min_ts := new_min_ts l2 - MAX_TIME_PERIOD_SEC\<rparr>
                else l2)
      in if prev_max_val l3 - new_min_val l3 > CLOSE_TO_ZERO then
           l3\<lparr>avg_time_period := avg_time_period l3 + (new_min_ts l3 - prev_min_ts l3),
              avg_min_val := avg_min_val l3 + new_min_val l3,
              amp_est := amp_est l3 + (prev_max_val l3 - new_min_val l3),
              count_min_det := count_min_det l3 + 1,
              prev_min_ts := new_min_ts l3,
              prev_min_val := new_min_val l3\<rparr>
         else l3)"

text \<open>
  The body of the extremum loop (lines 292 to 343) on the derivative and the two
  extended buffers; \<open>delta\<close> is the constant 1.
\<close>

definition detect_body :: "real list \<Rightarrow> real list \<Rightarrow> real list \<Rightarrow> nat \<Rightarrow> locals \<Rightarrow> locals" where
  "detect_body accDer accFilt timeStamps i l0 =
     (let l = (if i \<ge> 1 then l0\<lparr>prevAccDer := accDer ! (i - 1)\<rparr> else l0)
      in if prev_max_ts l \<le> prev_min_ts l then
           (if accDer ! i < - EPSILON \<and> locals.prevAccDer l \<ge> 0 then
              (if timeStamps ! i - prev_max_ts l > NO_DETECT_DUR_SEC
               then max_candidate accFilt timeStamps i l else l)
            else l)
         else
           (if accDer ! i > EPSILON \<and> locals.prevAccDer l \<le> 0 then
              (if timeStamps ! i - prev_min_ts l > NO_DETECT_DUR_SEC
               then min_candidate accFilt timeStamps i l else l)
            else l))"

text \<open>The state after the first loop, and the locals after \<open>n\<close> rounds of the second.\<close>

definition deriv_loop :: "globals \<Rightarrow> globals" where
  "deriv_loop g = for_loop SAMP_BUFF_LEN (deriv_body (TC_samples (ll_filter_y g))) g"

definition detect_upto :: "nat \<Rightarrow> globals \<Rightarrow> locals" where
  "detect_upto n g =
     (let g1 = deriv_loop g
      in for_loop n (detect_body (AccDer g1) (AccFilt g1) (TimeStamps g1)) (init_locals g))"

definition detect_loop :: "globals \<Rightarrow> locals" where
  "detect_loop g = detect_upto SAMP_BUFF_LEN g"

text \<open>The body of the third loop: the tail of the batch, kept for the next run.\<close>

definition tail_body :: "nat \<Rightarrow> nat \<Rightarrow> globals \<Rightarrow> globals" where
  "tail_body TC i g =
     g\<lparr>AccFilt := (AccFilt g)[i := AccBuff_CHY g ! (SAMP_BUFF_LEN - TC + i)],
       TimeStamps := (TimeStamps g)[i := AccBuff_TS g ! (SAMP_BUFF_LEN - TC + i)]\<rparr>"

text \<open>The amplitude and frequency estimates of a batch (lines 346 to 373).\<close>

definition amp_estimate :: "globals \<Rightarrow> locals \<Rightarrow> real \<times> nat" where
  "amp_estimate g l =
     (let (a, h) = (if count_min_det l > 0
                    then (amp_est l / real (count_min_det l), 0)
                    else (prev_amp_est g, amp_est_hold g + 1))
      in if h > BUFF_FACTOR then (0, 0) else (a, h))"

definition freq_estimate :: "globals \<Rightarrow> locals \<Rightarrow> real \<times> nat" where
  "freq_estimate g l =
     (let p = (if count_max_det l + count_min_det l > 0
               then avg_time_period l / real (count_max_det l + count_min_det l)
               else avg_time_period l);
          (f, h) = (if p > EPSILON then (1 / p, 0)
                    else (prev_freq_est g, freq_est_hold g + 1))
      in if h > BUFF_FACTOR then (0, 0) else (f, h))"

text \<open>The classification and the per-class counters (lines 391 to 424).\<close>

definition classify :: "real \<Rightarrow> real \<Rightarrow> nat \<Rightarrow> globals \<Rightarrow> globals" where
  "classify amp freq cmin g =
     (if amp \<le> SMALL_AMP then
        (if freq \<le> SLOW_FREQ
         then g\<lparr>step_algo_output := (step_algo_output g)\<lparr>step_type := STATIC\<rparr>\<rparr>
         else g\<lparr>step_algo_output := (step_algo_output g)\<lparr>step_type := WALK\<rparr>,
                num_steps_walk := num_steps_walk g + of_nat cmin\<rparr>)
      else if amp \<ge> LARGE_AMP then
        (if freq \<ge> FAST_FREQ
         then g\<lparr>step_algo_output := (step_algo_output g)\<lparr>step_type := RUN\<rparr>,
                num_steps_run := num_steps_run g + of_nat cmin\<rparr>
         else g\<lparr>step_algo_output := (step_algo_output g)\<lparr>step_type := HOP\<rparr>,
                num_steps_hop := num_steps_hop g + of_nat cmin\<rparr>)
      else
        (if freq \<ge> FAST_FREQ
         then g\<lparr>step_algo_output := (step_algo_output g)\<lparr>step_type := RUN\<rparr>,
                num_steps_run := num_steps_run g + of_nat cmin\<rparr>
         else g\<lparr>step_algo_output := (step_algo_output g)\<lparr>step_type := WALK\<rparr>,
                num_steps_walk := num_steps_walk g + of_nat cmin\<rparr>))"

definition step_algo_run :: "globals \<Rightarrow> globals" where
  "step_algo_run g =
     (let TC = TC_samples (ll_filter_y g);
          l = detect_loop g;
          g1 = deriv_loop g;
          (amp, ahold) = amp_estimate g l;
          (freq, fhold) = freq_estimate g l;
          g2 = for_loop TC (tail_body TC) g1;
          g3 = g2\<lparr>amp_est_hold := ahold,
                  freq_est_hold := fhold,
                  globals.prevAccDer := AccDer g2 ! (SAMP_BUFF_LEN - 1),
                  prev_amp_est := amp,
                  prev_freq_est := freq,
                  step_algo_output := (step_algo_output g2)
                    \<lparr>prev_max := prev_max_val l,
                     algo_out_t.prev_max_ts := locals.prev_max_ts l,
                     prev_min := prev_min_val l,
                     algo_out_t.prev_min_ts := locals.prev_min_ts l,
                     step_count := step_count (step_algo_output g2) + of_nat (count_min_det l)\<rparr>\<rparr>
      in classify amp freq (count_min_det l) g3)"

subsection \<open>The driver\<close>

text \<open>
  One input row as the main loop hands it to the core (lines 166 to 170): the
  preprocessing, and the detector when the buffer has filled.
\<close>

record sample =
  timestamp :: real
  arx :: real
  ary :: real
  arz :: real
  grx :: real
  gry :: real
  grz :: real

definition process_sample :: "sample \<Rightarrow> globals \<Rightarrow> nat \<times> globals" where
  "process_sample x g =
     (let (run_step_algo, g1) =
            step_algo_preproc (timestamp x) (arx x) (ary x) (arz x) (grx x) (gry x) (grz x) g
      in if run_step_algo = 1 then (run_step_algo, step_algo_run g1) else (run_step_algo, g1))"

fun process_all :: "sample list \<Rightarrow> globals \<Rightarrow> globals" where
  "process_all [] g = g"
| "process_all (x # xs) g = process_all xs (snd (process_sample x g))"

text \<open>
  The initialisation done by \<^verbatim>\<open>main\<close> (lines 112 to 147), with the C rule that
  static storage starts at zero.
\<close>

definition timeconst_samp :: "real \<Rightarrow> nat" where
  "timeconst_samp tau =
     (let n = nat \<lfloor>real SENSOR_SAMP_FREQ * tau\<rfloor> + 1
      in if n > MAX_TC_SAMPLES then MAX_TC_SAMPLES else n)"

definition lp_init :: filter_t where
  "lp_init =
     \<lparr>b0 = 72269463 / 10000000000, b1 = 14453893 / 1000000000, b2 = 72269463 / 10000000000,
      a1 = - (17455322 / 10000000), a2 = 77444003 / 100000000,
      prev_in = 0, prev_prev_in = 0, prev_out = 0, prev_prev_out = 0,
      TC_samples = timeconst_samp (75 / 1000)\<rparr>"

definition ll_init :: filter_t where
  "ll_init =
     \<lparr>b0 = 25369363 / 10000000, b1 = 0, b2 = - (25369363 / 10000000),
      a1 = - (16641912 / 10000000), a2 = 71297842 / 100000000,
      prev_in = 0, prev_prev_in = 0, prev_out = 0, prev_prev_out = 0,
      TC_samples = timeconst_samp (6 / 100)\<rparr>"

definition init_state :: globals where
  "init_state =
     \<lparr>lp_filter_y = lp_init,
      ll_filter_y = ll_init,
      step_algo_output =
        \<lparr>step_count = 0, step_type = STATIC, prev_max = 0, prev_min = 0,
         algo_out_t.prev_max_ts = 0, algo_out_t.prev_min_ts = 0\<rparr>,
      AccBuff_CHY = replicate SAMP_BUFF_LEN 0,
      AccBuff_TS = replicate SAMP_BUFF_LEN 0,
      num_steps_walk = 0,
      num_steps_run = 0,
      num_steps_hop = 0,
      count = 0,
      prev_amp_est = 0,
      prev_freq_est = 0,
      amp_est_hold = 0,
      freq_est_hold = 0,
      globals.prevAccDer = 0,
      AccFilt = replicate (SAMP_BUFF_LEN + MAX_TC_SAMPLES) 0,
      TimeStamps = replicate (SAMP_BUFF_LEN + MAX_TC_SAMPLES) 0,
      AccDer = replicate SAMP_BUFF_LEN 0\<rparr>"

subsection \<open>The gates of the extremum loop\<close>

text \<open>
  The conditions under which an iteration of the extremum loop reaches a candidate:
  the derivative sample before the current one (\<open>prevAccDer\<close> at index 0), and
  the mode test, the zero-crossing test and the dead-time test of each branch.
\<close>

definition prev_der :: "real list \<Rightarrow> nat \<Rightarrow> locals \<Rightarrow> real" where
  "prev_der accDer i l = (if i \<ge> 1 then accDer ! (i - 1) else locals.prevAccDer l)"

definition max_gate :: "real list \<Rightarrow> real list \<Rightarrow> nat \<Rightarrow> locals \<Rightarrow> bool" where
  "max_gate accDer timeStamps i l \<longleftrightarrow>
     locals.prev_max_ts l \<le> locals.prev_min_ts l \<and>
     accDer ! i < - EPSILON \<and> prev_der accDer i l \<ge> 0 \<and>
     timeStamps ! i - locals.prev_max_ts l > NO_DETECT_DUR_SEC"

definition min_gate :: "real list \<Rightarrow> real list \<Rightarrow> nat \<Rightarrow> locals \<Rightarrow> bool" where
  "min_gate accDer timeStamps i l \<longleftrightarrow>
     locals.prev_max_ts l > locals.prev_min_ts l \<and>
     accDer ! i > EPSILON \<and> prev_der accDer i l \<le> 0 \<and>
     timeStamps ! i - locals.prev_min_ts l > NO_DETECT_DUR_SEC"

subsection \<open>An invariant of the extremum loop\<close>


subsection \<open>The total and the per-class counters\<close>


subsection \<open>Runs of the filter and well-formed states\<close>

text \<open>
  The filter after the first \<open>n\<close> inputs of a list, a filter that a constant
  input leaves at output zero, and the array sizes of the C declarations.
\<close>

fun filter_after :: "filter_t \<Rightarrow> real list \<Rightarrow> nat \<Rightarrow> filter_t" where
  "filter_after f xs 0 = f"
| "filter_after f xs (Suc n) = snd (apply_filter (filter_after f xs n) (xs ! n))"

definition steady :: "filter_t \<Rightarrow> real \<Rightarrow> bool" where
  "steady f c \<longleftrightarrow>
     prev_in f = c \<and> prev_prev_in f = c \<and> prev_out f = 0 \<and> prev_prev_out f = 0 \<and>
     (b0 f + b1 f + b2 f) * c = 0"


text \<open>Two states of the extremum loop that differ at most in \<open>prevAccDer\<close>.\<close>

definition same_but_der :: "locals \<Rightarrow> locals \<Rightarrow> bool" where
  "same_but_der l l' \<longleftrightarrow> (\<exists>x. l' = l\<lparr>locals.prevAccDer := x\<rparr>)"

subsection \<open>Example states\<close>

text \<open>
  A detector state as it is after a long constant signal \<open>c\<close>, followed by one frame:
  the lead-lag filter has input history \<open>c\<close> and output history 0, the saved tail
  holds \<open>c\<close> with timestamps \<open>T0, T0 + dt, \<dots>\<close>, the frame buffer holds
  \<open>c + a * p\<close> for a short pattern \<open>p\<close> and \<open>c\<close> after it, and the stored
  previous maximum is \<open>pm\<close>; everything else is as initialised.
  The pattern \<open>bump\<close> is the denominator of the lead-lag filter, so
  that the derivative of \<open>c + a * bump\<close> is \<open>a * b0, 0, - a * b0\<close> and then 0.
\<close>

definition wiggle :: "real \<Rightarrow> real \<Rightarrow> real \<Rightarrow> real list \<Rightarrow> real \<Rightarrow> real \<Rightarrow> globals" where
  "wiggle pm c a ps T0 dt = init_state
     \<lparr>ll_filter_y := ll_init\<lparr>prev_in := c, prev_prev_in := c\<rparr>,
      step_algo_output := (step_algo_output init_state)\<lparr>prev_max := pm\<rparr>,
      AccBuff_CHY := map (\<lambda>x. c + a * x) (ps @ replicate (SAMP_BUFF_LEN - length ps) 0),
      AccBuff_TS := map (\<lambda>j. T0 + dt * real (7 + j)) [0..<SAMP_BUFF_LEN],
      AccFilt := replicate 7 c @ replicate (SAMP_BUFF_LEN + MAX_TC_SAMPLES - 7) 0,
      TimeStamps := map (\<lambda>j. T0 + dt * real j) [0..<7]
                      @ replicate (SAMP_BUFF_LEN + MAX_TC_SAMPLES - 7) 0\<rparr>"

definition bump :: "real list" where
  "bump = [1, - (16641912 / 10000000), 71297842 / 100000000]"

definition one_step :: globals where
  "one_step = wiggle 0 2 1 (bump @ replicate 5 0 @ bump) 1 (1 / 104)"




definition clamp_only :: globals where
  "clamp_only = wiggle (- 1) (- 2) (1 / 10) (map uminus bump) 2 (1 / 104)"

definition at_rest :: globals where
  "at_rest = wiggle 0 2 0 [] 1 (1 / 104)"

subsection \<open>What a run shows\<close>

text \<open>
  The values the driver can see after each sample: whether the detector ran, the
  total, the motion label and the per-class counters.
\<close>

fun process_trace ::
  "sample list \<Rightarrow> globals \<Rightarrow> (nat \<times> 32 word \<times> motion_type_t \<times> 32 word \<times> 32 word \<times> 32 word) list" where
  "process_trace [] g = []"
| "process_trace (x # xs) g =
     (let (r, g') = process_sample x g
      in (r, step_count (step_algo_output g'), step_type (step_algo_output g'),
          num_steps_walk g', num_steps_run g', num_steps_hop g') # process_trace xs g')"


subsection \<open>The commits of a batch and of a run\<close>

text \<open>
  The timestamps of the maxima, and of the minima, that the extremum loop commits in
  its first \<open>n\<close> iterations, in the order of the commits: iteration \<open>i\<close> commits
  when it advances the count, and the timestamp is the one it stores. For a run of the
  driver, the commits of the batches it processes, in order.
\<close>

definition max_commits_upto :: "nat \<Rightarrow> globals \<Rightarrow> real list" where
  "max_commits_upto n g =
     map (\<lambda>i. locals.prev_max_ts (detect_upto (Suc i) g))
       (filter (\<lambda>i. count_max_det (detect_upto (Suc i) g) \<noteq> count_max_det (detect_upto i g)) [0..<n])"

definition min_commits_upto :: "nat \<Rightarrow> globals \<Rightarrow> real list" where
  "min_commits_upto n g =
     map (\<lambda>i. locals.prev_min_ts (detect_upto (Suc i) g))
       (filter (\<lambda>i. count_min_det (detect_upto (Suc i) g) \<noteq> count_min_det (detect_upto i g)) [0..<n])"

fun max_commits_run :: "sample list \<Rightarrow> globals \<Rightarrow> real list" where
  "max_commits_run [] g = []"
| "max_commits_run (x # xs) g =
     (if fst (process_sample x g) = 1
      then max_commits_upto SAMP_BUFF_LEN
             (snd (step_algo_preproc (timestamp x) (arx x) (ary x) (arz x) (grx x) (gry x) (grz x) g))
      else [])
     @ max_commits_run xs (snd (process_sample x g))"

fun min_commits_run :: "sample list \<Rightarrow> globals \<Rightarrow> real list" where
  "min_commits_run [] g = []"
| "min_commits_run (x # xs) g =
     (if fst (process_sample x g) = 1
      then min_commits_upto SAMP_BUFF_LEN
             (snd (step_algo_preproc (timestamp x) (arx x) (ary x) (arz x) (grx x) (gry x) (grz x) g))
      else [])
     @ min_commits_run xs (snd (process_sample x g))"

text \<open>Two timestamps more than the dead time apart.\<close>

definition apart :: "real \<Rightarrow> real \<Rightarrow> bool" where
  "apart s t \<longleftrightarrow> s + NO_DETECT_DUR_SEC < t"

section \<open>Auxiliary facts\<close>

subsection \<open>What each part of the run leaves alone\<close>

lemma SAMP_BUFF_LEN_52: "SAMP_BUFF_LEN = 52"
  by (simp add: SAMP_BUFF_LEN_def SENSOR_SAMP_FREQ_def BUFF_FACTOR_def)

lemma for_loop_pres:
  assumes "\<And>i s. f (body i s) = f s"
  shows "f (for_loop n body s) = f s"
  by (induction n) (simp_all add: assms)

lemma preproc_call:
  "step_algo_preproc t ax ay az gx gy gz g =
     (if count g + 1 = 52 then 1 else 0,
      g\<lparr>lp_filter_y := snd (apply_filter (lp_filter_y g) ay),
        AccBuff_CHY := (AccBuff_CHY g)[count g := fst (apply_filter (lp_filter_y g) ay)],
        AccBuff_TS := (AccBuff_TS g)[count g := t],
        count := (if count g + 1 = 52 then 0 else count g + 1)\<rparr>)"
  by (simp add: step_algo_preproc_def Let_def split_beta SAMP_BUFF_LEN_52)

lemma deriv_body_frame:
  "count (deriv_body TC i g) = count g"
  "step_algo_output (deriv_body TC i g) = step_algo_output g"
  "num_steps_walk (deriv_body TC i g) = num_steps_walk g"
  "num_steps_run (deriv_body TC i g) = num_steps_run g"
  "num_steps_hop (deriv_body TC i g) = num_steps_hop g"
  "lp_filter_y (deriv_body TC i g) = lp_filter_y g"
  "AccBuff_CHY (deriv_body TC i g) = AccBuff_CHY g"
  "AccBuff_TS (deriv_body TC i g) = AccBuff_TS g"
  by (simp_all add: deriv_body_def split_beta)

lemma deriv_loop_frame:
  "count (deriv_loop g) = count g"
  "step_algo_output (deriv_loop g) = step_algo_output g"
  "num_steps_walk (deriv_loop g) = num_steps_walk g"
  "num_steps_run (deriv_loop g) = num_steps_run g"
  "num_steps_hop (deriv_loop g) = num_steps_hop g"
  "lp_filter_y (deriv_loop g) = lp_filter_y g"
  "AccBuff_CHY (deriv_loop g) = AccBuff_CHY g"
  "AccBuff_TS (deriv_loop g) = AccBuff_TS g"
  unfolding deriv_loop_def
  by (rule for_loop_pres, simp add: deriv_body_frame)+

lemma tail_body_frame:
  "count (tail_body TC i g) = count g"
  "step_algo_output (tail_body TC i g) = step_algo_output g"
  "num_steps_walk (tail_body TC i g) = num_steps_walk g"
  "num_steps_run (tail_body TC i g) = num_steps_run g"
  "num_steps_hop (tail_body TC i g) = num_steps_hop g"
  "lp_filter_y (tail_body TC i g) = lp_filter_y g"
  "AccBuff_CHY (tail_body TC i g) = AccBuff_CHY g"
  "AccBuff_TS (tail_body TC i g) = AccBuff_TS g"
  "ll_filter_y (tail_body TC i g) = ll_filter_y g"
  "AccDer (tail_body TC i g) = AccDer g"
  by (simp_all add: tail_body_def)

lemma tail_loop_frame:
  "count (for_loop n (tail_body TC) g) = count g"
  "step_algo_output (for_loop n (tail_body TC) g) = step_algo_output g"
  "num_steps_walk (for_loop n (tail_body TC) g) = num_steps_walk g"
  "num_steps_run (for_loop n (tail_body TC) g) = num_steps_run g"
  "num_steps_hop (for_loop n (tail_body TC) g) = num_steps_hop g"
  "lp_filter_y (for_loop n (tail_body TC) g) = lp_filter_y g"
  "AccBuff_CHY (for_loop n (tail_body TC) g) = AccBuff_CHY g"
  "AccBuff_TS (for_loop n (tail_body TC) g) = AccBuff_TS g"
  "ll_filter_y (for_loop n (tail_body TC) g) = ll_filter_y g"
  "AccDer (for_loop n (tail_body TC) g) = AccDer g"
  by (rule for_loop_pres, simp add: tail_body_frame)+

lemma classify_frame:
  "count (classify a f c g) = count g"
  "lp_filter_y (classify a f c g) = lp_filter_y g"
  "AccBuff_CHY (classify a f c g) = AccBuff_CHY g"
  "AccBuff_TS (classify a f c g) = AccBuff_TS g"
  "step_count (step_algo_output (classify a f c g)) = step_count (step_algo_output g)"
  "prev_max (step_algo_output (classify a f c g)) = prev_max (step_algo_output g)"
  "prev_min (step_algo_output (classify a f c g)) = prev_min (step_algo_output g)"
  "algo_out_t.prev_max_ts (step_algo_output (classify a f c g)) = algo_out_t.prev_max_ts (step_algo_output g)"
  "algo_out_t.prev_min_ts (step_algo_output (classify a f c g)) = algo_out_t.prev_min_ts (step_algo_output g)"
  by (simp_all add: classify_def)

lemma run_frame:
  "count (step_algo_run g) = count g"
  "lp_filter_y (step_algo_run g) = lp_filter_y g"
  "AccBuff_CHY (step_algo_run g) = AccBuff_CHY g"
  "AccBuff_TS (step_algo_run g) = AccBuff_TS g"
  by (simp_all add: step_algo_run_def Let_def split_beta classify_frame tail_loop_frame deriv_loop_frame)

lemma run_output:
  "step_count (step_algo_output (step_algo_run g)) =
     step_count (step_algo_output g) + of_nat (count_min_det (detect_loop g))"
  "prev_max (step_algo_output (step_algo_run g)) = prev_max_val (detect_loop g)"
  "prev_min (step_algo_output (step_algo_run g)) = prev_min_val (detect_loop g)"
  "algo_out_t.prev_max_ts (step_algo_output (step_algo_run g)) = locals.prev_max_ts (detect_loop g)"
  "algo_out_t.prev_min_ts (step_algo_output (step_algo_run g)) = locals.prev_min_ts (detect_loop g)"
  by (simp_all add: step_algo_run_def Let_def split_beta classify_frame tail_loop_frame deriv_loop_frame)

subsection \<open>The extremum loop, branch by branch\<close>

lemmas thresholds = NO_DETECT_DUR_SEC_def CLOSE_TO_ZERO_def MAX_TIME_PERIOD_SEC_def EPSILON_def

lemma max_candidate_eq:
  "max_candidate af ts i l =
     (if \<bar>af ! i\<bar> > CLOSE_TO_ZERO then
        (if af ! i - prev_min_val l > CLOSE_TO_ZERO then
           l\<lparr>new_max_val := af ! i, new_max_ts := ts ! i,
             avg_time_period := avg_time_period l +
               (ts ! i - (if ts ! i > locals.prev_max_ts l + MAX_TIME_PERIOD_SEC
                          then ts ! i - MAX_TIME_PERIOD_SEC else locals.prev_max_ts l)),
             avg_max_val := avg_max_val l + af ! i,
             count_max_det := count_max_det l + 1,
             locals.prev_max_ts := ts ! i,
             prev_max_val := af ! i\<rparr>
         else
           l\<lparr>new_max_val := af ! i, new_max_ts := ts ! i,
             locals.prev_max_ts :=
               (if ts ! i > locals.prev_max_ts l + MAX_TIME_PERIOD_SEC
                then ts ! i - MAX_TIME_PERIOD_SEC else locals.prev_max_ts l)\<rparr>)
      else l\<lparr>new_max_val := af ! i\<rparr>)"
  by (simp add: max_candidate_def Let_def)

lemma min_candidate_eq:
  "min_candidate af ts i l =
     (if prev_max_val l - af ! i > CLOSE_TO_ZERO then
        l\<lparr>new_min_val := af ! i, new_min_ts := ts ! i,
          avg_time_period := avg_time_period l +
            (ts ! i - (if ts ! i > locals.prev_min_ts l + MAX_TIME_PERIOD_SEC
                       then ts ! i - MAX_TIME_PERIOD_SEC else locals.prev_min_ts l)),
          avg_min_val := avg_min_val l + af ! i,
          amp_est := amp_est l + (prev_max_val l - af ! i),
          count_min_det := count_min_det l + 1,
          locals.prev_min_ts := ts ! i,
          prev_min_val := af ! i\<rparr>
      else
        l\<lparr>new_min_val := af ! i, new_min_ts := ts ! i,
          locals.prev_min_ts :=
            (if ts ! i > locals.prev_min_ts l + MAX_TIME_PERIOD_SEC
             then ts ! i - MAX_TIME_PERIOD_SEC else locals.prev_min_ts l)\<rparr>)"
  by (simp add: min_candidate_def Let_def)

lemma detect_body_eq:
  "detect_body ad af ts i l =
     (if max_gate ad ts i l then max_candidate af ts i (l\<lparr>locals.prevAccDer := prev_der ad i l\<rparr>)
      else if min_gate ad ts i l then min_candidate af ts i (l\<lparr>locals.prevAccDer := prev_der ad i l\<rparr>)
      else l\<lparr>locals.prevAccDer := prev_der ad i l\<rparr>)"
  by (cases "i \<ge> 1") (auto simp add: detect_body_def max_gate_def min_gate_def prev_der_def Let_def)

lemma gates_exclusive: "\<not> (max_gate ad ts i l \<and> min_gate ad ts i l)"
  by (auto simp: max_gate_def min_gate_def)

text \<open>A summary of one iteration: which of the three outcomes, and what each changes.\<close>

lemma detect_body_counts:
  "count_max_det l \<le> count_max_det (detect_body ad af ts i l)"
  "count_max_det (detect_body ad af ts i l) \<le> count_max_det l + 1"
  "count_min_det l \<le> count_min_det (detect_body ad af ts i l)"
  "count_min_det (detect_body ad af ts i l) \<le> count_min_det l + 1"
  by (simp_all add: detect_body_eq max_candidate_eq min_candidate_eq)

lemma detect_body_ts_mono:
  "locals.prev_max_ts l \<le> locals.prev_max_ts (detect_body ad af ts i l)"
  "locals.prev_min_ts l \<le> locals.prev_min_ts (detect_body ad af ts i l)"
  by (auto simp add: detect_body_eq max_candidate_eq min_candidate_eq max_gate_def min_gate_def thresholds)

lemma detect_body_max_commit:
  assumes "count_max_det (detect_body ad af ts i l) \<noteq> count_max_det l"
  shows "max_gate ad ts i l"
    and "\<bar>af ! i\<bar> > CLOSE_TO_ZERO"
    and "af ! i - prev_min_val l > CLOSE_TO_ZERO"
    and "count_max_det (detect_body ad af ts i l) = count_max_det l + 1"
    and "prev_max_val (detect_body ad af ts i l) = af ! i"
    and "locals.prev_max_ts (detect_body ad af ts i l) = ts ! i"
    and "new_max_val (detect_body ad af ts i l) = af ! i"
    and "new_max_ts (detect_body ad af ts i l) = ts ! i"
proof -
  show g: "max_gate ad ts i l"
    using assms by (simp add: detect_body_eq min_candidate_eq split: if_splits)
  show a: "\<bar>af ! i\<bar> > CLOSE_TO_ZERO"
    using assms g by (simp add: detect_body_eq max_candidate_eq split: if_splits)
  show b: "af ! i - prev_min_val l > CLOSE_TO_ZERO"
    using assms g a by (simp add: detect_body_eq max_candidate_eq split: if_splits)
  show "count_max_det (detect_body ad af ts i l) = count_max_det l + 1"
    "prev_max_val (detect_body ad af ts i l) = af ! i"
    "locals.prev_max_ts (detect_body ad af ts i l) = ts ! i"
    "new_max_val (detect_body ad af ts i l) = af ! i"
    "new_max_ts (detect_body ad af ts i l) = ts ! i"
    using g a b by (simp_all add: detect_body_eq max_candidate_eq)
qed

lemma detect_body_min_commit:
  assumes "count_min_det (detect_body ad af ts i l) \<noteq> count_min_det l"
  shows "min_gate ad ts i l"
    and "prev_max_val l - af ! i > CLOSE_TO_ZERO"
    and "count_min_det (detect_body ad af ts i l) = count_min_det l + 1"
    and "prev_min_val (detect_body ad af ts i l) = af ! i"
    and "locals.prev_min_ts (detect_body ad af ts i l) = ts ! i"
    and "new_min_val (detect_body ad af ts i l) = af ! i"
    and "new_min_ts (detect_body ad af ts i l) = ts ! i"
proof -
  show g: "min_gate ad ts i l"
    using assms by (simp add: detect_body_eq max_candidate_eq split: if_splits)
  have ng: "\<not> max_gate ad ts i l"
    using g gates_exclusive by blast
  show b: "prev_max_val l - af ! i > CLOSE_TO_ZERO"
    using assms g ng by (simp add: detect_body_eq min_candidate_eq split: if_splits)
  show "count_min_det (detect_body ad af ts i l) = count_min_det l + 1"
    "prev_min_val (detect_body ad af ts i l) = af ! i"
    "locals.prev_min_ts (detect_body ad af ts i l) = ts ! i"
    "new_min_val (detect_body ad af ts i l) = af ! i"
    "new_min_ts (detect_body ad af ts i l) = ts ! i"
    using g ng b by (simp_all add: detect_body_eq min_candidate_eq)
qed



lemma detect_body_keeps_max_val:
  assumes "count_max_det (detect_body ad af ts i l) = count_max_det l"
  shows "prev_max_val (detect_body ad af ts i l) = prev_max_val l"
  using assms by (simp add: detect_body_eq max_candidate_eq min_candidate_eq split: if_splits)

lemma detect_body_keeps_min_val:
  assumes "count_min_det (detect_body ad af ts i l) = count_min_det l"
  shows "prev_min_val (detect_body ad af ts i l) = prev_min_val l"
  using assms by (simp add: detect_body_eq max_candidate_eq min_candidate_eq split: if_splits)

subsection \<open>The period sum and the frequency estimate\<close>








subsection \<open>Steps and classes\<close>





lemma preproc_frame:
  "step_algo_output (snd (step_algo_preproc t ax ay az gx gy gz g)) = step_algo_output g"
  "num_steps_walk (snd (step_algo_preproc t ax ay az gx gy gz g)) = num_steps_walk g"
  "num_steps_run (snd (step_algo_preproc t ax ay az gx gy gz g)) = num_steps_run g"
  "num_steps_hop (snd (step_algo_preproc t ax ay az gx gy gz g)) = num_steps_hop g"
  by (simp_all add: preproc_call)





subsection \<open>The fill count of the frame buffer\<close>

lemma count_process_sample:
  "count (snd (process_sample x g)) = (if count g + 1 = 52 then 0 else count g + 1)"
  by (simp add: process_sample_def preproc_call run_frame)

lemma count_process_all:
  "count g < 52 \<Longrightarrow> count (process_all xs g) = (count g + length xs) mod 52"
proof (induction xs arbitrary: g)
  case Nil
  then show ?case by simp
next
  case (Cons x xs)
  let ?g = "snd (process_sample x g)"
  have c: "count ?g = (if count g + 1 = 52 then 0 else count g + 1)"
    by (rule count_process_sample)
  then have lt: "count ?g < 52" using Cons.prems by auto
  have "count (process_all (x # xs) g) = (count ?g + length xs) mod 52"
    using Cons.IH [OF lt] by simp
  also have "\<dots> = (count g + length (x # xs)) mod 52"
  proof (cases "count g + 1 = 52")
    case True
    then have "count g + length (x # xs) = 52 + length xs" by simp
    with True c show ?thesis by simp
  next
    case False
    with c show ?thesis by simp
  qed
  finally show ?case .
qed

lemma count_init: "count init_state = 0"
  by (simp add: init_state_def)

subsection \<open>The derivative loop in closed form\<close>

lemma deriv_prefix_frame:
  "AccBuff_CHY (for_loop n (deriv_body TC) g) = AccBuff_CHY g"
  "AccBuff_TS (for_loop n (deriv_body TC) g) = AccBuff_TS g"
  by (rule for_loop_pres, simp add: deriv_body_frame)+

lemma deriv_body_fields:
  "ll_filter_y (deriv_body TC i g) = snd (apply_filter (ll_filter_y g) (AccBuff_CHY g ! i))"
  "AccDer (deriv_body TC i g) = (AccDer g)[i := fst (apply_filter (ll_filter_y g) (AccBuff_CHY g ! i))]"
  "AccFilt (deriv_body TC i g) = (AccFilt g)[TC + i := AccBuff_CHY g ! i]"
  "TimeStamps (deriv_body TC i g) = (TimeStamps g)[TC + i := AccBuff_TS g ! i]"
  by (simp_all add: deriv_body_def split_beta)

lemma deriv_prefix_filter:
  "ll_filter_y (for_loop n (deriv_body TC) g) = filter_after (ll_filter_y g) (AccBuff_CHY g) n"
  by (induction n) (simp_all add: deriv_body_fields deriv_prefix_frame)

lemma deriv_prefix_lengths:
  "length (AccDer (for_loop n (deriv_body TC) g)) = length (AccDer g)"
  "length (AccFilt (for_loop n (deriv_body TC) g)) = length (AccFilt g)"
  "length (TimeStamps (for_loop n (deriv_body TC) g)) = length (TimeStamps g)"
  by (induction n) (simp_all add: deriv_body_fields)

lemma deriv_prefix_AccDer:
  assumes "i < length (AccDer g)"
  shows "AccDer (for_loop n (deriv_body TC) g) ! i =
     (if i < n then fst (apply_filter (filter_after (ll_filter_y g) (AccBuff_CHY g) i) (AccBuff_CHY g ! i))
      else AccDer g ! i)"
  using assms
proof (induction n)
  case 0
  then show ?case by simp
next
  case (Suc n)
  then show ?case
    by (cases "i = n")
      (simp_all add: deriv_body_fields deriv_prefix_frame deriv_prefix_filter
        deriv_prefix_lengths nth_list_update less_Suc_eq)
qed

lemma deriv_prefix_AccFilt:
  assumes "j < length (AccFilt g)"
  shows "AccFilt (for_loop n (deriv_body TC) g) ! j =
     (if TC \<le> j \<and> j < TC + n then AccBuff_CHY g ! (j - TC) else AccFilt g ! j)"
  using assms
proof (induction n)
  case 0
  then show ?case by simp
next
  case (Suc n)
  then show ?case
    by (cases "j = TC + n")
      (auto simp add: deriv_body_fields deriv_prefix_frame deriv_prefix_lengths
        nth_list_update)
qed

lemma deriv_prefix_TimeStamps:
  assumes "j < length (TimeStamps g)"
  shows "TimeStamps (for_loop n (deriv_body TC) g) ! j =
     (if TC \<le> j \<and> j < TC + n then AccBuff_TS g ! (j - TC) else TimeStamps g ! j)"
  using assms
proof (induction n)
  case 0
  then show ?case by simp
next
  case (Suc n)
  then show ?case
    by (cases "j = TC + n")
      (auto simp add: deriv_body_fields deriv_prefix_frame deriv_prefix_lengths
        nth_list_update)
qed

lemma steady_step:
  assumes "steady f c"
  shows "fst (apply_filter f c) = 0" and "steady (snd (apply_filter f c)) c"
proof -
  have "b0 f * c + b1 f * c + b2 f * c = 0"
    using assms by (simp add: steady_def algebra_simps)
  then show "fst (apply_filter f c) = 0" and "steady (snd (apply_filter f c)) c"
    using assms by (simp_all add: apply_filter_def Let_def steady_def)
qed

lemma steady_run:
  assumes "steady (filter_after f xs k) c" and "\<And>j. k \<le> j \<Longrightarrow> j < n \<Longrightarrow> xs ! j = c"
  shows "k \<le> i \<Longrightarrow> i \<le> n \<Longrightarrow> steady (filter_after f xs i) c"
proof (induction i)
  case 0
  with assms(1) show ?case by simp
next
  case (Suc m)
  show ?case
  proof (cases "k = Suc m")
    case True
    with assms(1) show ?thesis by simp
  next
    case False
    with Suc.prems have km: "k \<le> m" and mn: "m < n" by simp_all
    have st: "steady (filter_after f xs m) c" using Suc.IH km mn by simp
    have "xs ! m = c" using assms(2) km mn by simp
    with st show ?thesis by (simp add: steady_step(2))
  qed
qed

lemma steady_outputs:
  assumes "steady (filter_after f xs k) c" and "\<And>j. k \<le> j \<Longrightarrow> j < n \<Longrightarrow> xs ! j = c"
    and "k \<le> i" and "i < n"
  shows "fst (apply_filter (filter_after f xs i) (xs ! i)) = 0"
proof -
  have "steady (filter_after f xs i) c"
    using steady_run [OF assms(1,2)] assms(3,4) by simp
  moreover have "xs ! i = c" using assms by simp
  ultimately show ?thesis by (simp add: steady_step(1))
qed

subsection \<open>Stretches without a zero crossing\<close>

lemma same_but_der_refl: "same_but_der l l"
  unfolding same_but_der_def by (rule exI [of _ "locals.prevAccDer l"]) simp

lemma detect_body_quiet:
  assumes "- EPSILON \<le> ad ! i" and "ad ! i \<le> EPSILON"
  shows "detect_body ad af ts i l = l\<lparr>locals.prevAccDer := prev_der ad i l\<rparr>"
  using assms by (simp add: detect_body_eq max_gate_def min_gate_def)

lemma same_but_der_step:
  assumes "same_but_der l l'" and "- EPSILON \<le> ad ! i" and "ad ! i \<le> EPSILON"
  shows "same_but_der l (detect_body ad af ts i l')"
proof -
  obtain x where e: "l' = l\<lparr>locals.prevAccDer := x\<rparr>"
    using assms(1) unfolding same_but_der_def by blast
  have "detect_body ad af ts i l' = l\<lparr>locals.prevAccDer := prev_der ad i l'\<rparr>"
    unfolding detect_body_quiet [OF assms(2,3)] by (subst e) simp
  then show ?thesis
    unfolding same_but_der_def by blast
qed

lemma detect_quiet_tail:
  assumes "\<And>i. a \<le> i \<Longrightarrow> i < b \<Longrightarrow> - EPSILON \<le> ad ! i \<and> ad ! i \<le> EPSILON"
  shows "a \<le> n \<Longrightarrow> n \<le> b \<Longrightarrow>
     same_but_der (for_loop a (detect_body ad af ts) l) (for_loop n (detect_body ad af ts) l)"
proof (induction n)
  case 0
  then show ?case by (simp add: same_but_der_refl)
next
  case (Suc m)
  show ?case
  proof (cases "a = Suc m")
    case True
    then show ?thesis by (simp add: same_but_der_refl)
  next
    case False
    with Suc.prems have am: "a \<le> m" and mb: "m < b" by simp_all
    have q: "- EPSILON \<le> ad ! m \<and> ad ! m \<le> EPSILON" using assms am mb by simp
    have "same_but_der (for_loop a (detect_body ad af ts) l) (for_loop m (detect_body ad af ts) l)"
      using Suc.IH am mb by simp
    then show ?thesis
      using q by (simp add: same_but_der_step)
  qed
qed

lemma same_but_der_fields:
  assumes "same_but_der l l'"
  shows "prev_max_val l' = prev_max_val l" "locals.prev_max_ts l' = locals.prev_max_ts l"
    "prev_min_val l' = prev_min_val l" "locals.prev_min_ts l' = locals.prev_min_ts l"
    "count_max_det l' = count_max_det l" "count_min_det l' = count_min_det l"
    "avg_time_period l' = avg_time_period l" "amp_est l' = amp_est l"
    "new_max_val l' = new_max_val l" "new_max_ts l' = new_max_ts l"
    "new_min_val l' = new_min_val l" "new_min_ts l' = new_min_ts l"
proof -
  obtain x where e: "l' = l\<lparr>locals.prevAccDer := x\<rparr>"
    using assms unfolding same_but_der_def by blast
  show "prev_max_val l' = prev_max_val l" "locals.prev_max_ts l' = locals.prev_max_ts l"
    "prev_min_val l' = prev_min_val l" "locals.prev_min_ts l' = locals.prev_min_ts l"
    "count_max_det l' = count_max_det l" "count_min_det l' = count_min_det l"
    "avg_time_period l' = avg_time_period l" "amp_est l' = amp_est l"
    "new_max_val l' = new_max_val l" "new_max_ts l' = new_max_ts l"
    "new_min_val l' = new_min_val l" "new_min_ts l' = new_min_ts l"
    by (simp_all add: e)
qed

lemma deriv_loop_AccDer:
  assumes "i < 52" and "length (AccDer g) = 52"
  shows "AccDer (deriv_loop g) ! i =
     fst (apply_filter (filter_after (ll_filter_y g) (AccBuff_CHY g) i) (AccBuff_CHY g ! i))"
  using assms by (simp add: deriv_loop_def SAMP_BUFF_LEN_52 deriv_prefix_AccDer)

lemma deriv_loop_AccFilt:
  assumes "j < length (AccFilt g)"
  shows "AccFilt (deriv_loop g) ! j =
     (if TC_samples (ll_filter_y g) \<le> j \<and> j < TC_samples (ll_filter_y g) + 52
      then AccBuff_CHY g ! (j - TC_samples (ll_filter_y g)) else AccFilt g ! j)"
  using assms by (simp add: deriv_loop_def SAMP_BUFF_LEN_52 deriv_prefix_AccFilt)

lemma deriv_loop_TimeStamps:
  assumes "j < length (TimeStamps g)"
  shows "TimeStamps (deriv_loop g) ! j =
     (if TC_samples (ll_filter_y g) \<le> j \<and> j < TC_samples (ll_filter_y g) + 52
      then AccBuff_TS g ! (j - TC_samples (ll_filter_y g)) else TimeStamps g ! j)"
  using assms by (simp add: deriv_loop_def SAMP_BUFF_LEN_52 deriv_prefix_TimeStamps)

lemma filter_after_numeral:
  "filter_after f xs (numeral k) =
     snd (apply_filter (filter_after f xs (pred_numeral k)) (xs ! pred_numeral k))"
  by (simp add: numeral_eq_Suc)

lemma filter_after_1:
  "filter_after f xs 1 = snd (apply_filter f (xs ! 0))"
  by simp

subsection \<open>Evaluating the example states\<close>

lemma TC7: "TC_samples ll_init = 7"
  by (simp add: ll_init_def timeconst_samp_def SENSOR_SAMP_FREQ_def MAX_TC_SAMPLES_def)

lemma wiggle_fields:
  "ll_filter_y (wiggle pm c a ps T0 dt) = ll_init\<lparr>prev_in := c, prev_prev_in := c\<rparr>"
  "TC_samples (ll_filter_y (wiggle pm c a ps T0 dt)) = 7"
  "length (AccDer (wiggle pm c a ps T0 dt)) = 52"
  "length (AccFilt (wiggle pm c a ps T0 dt)) = 72"
  "length (TimeStamps (wiggle pm c a ps T0 dt)) = 72"
  "globals.prevAccDer (wiggle pm c a ps T0 dt) = 0"
  "step_algo_output (wiggle pm c a ps T0 dt) = (step_algo_output init_state)\<lparr>prev_max := pm\<rparr>"
  by (simp_all add: wiggle_def init_state_def SAMP_BUFF_LEN_52 MAX_TC_SAMPLES_def TC7)

lemma wiggle_buffer:
  assumes "i < 52" and "length ps \<le> 52"
  shows "AccBuff_CHY (wiggle pm c a ps T0 dt) ! i = c + a * (if i < length ps then ps ! i else 0)"
    and "AccBuff_TS (wiggle pm c a ps T0 dt) ! i = T0 + dt * real (7 + i)"
  using assms by (simp_all add: wiggle_def SAMP_BUFF_LEN_52 nth_append)

lemma wiggle_tail:
  assumes "j < 7"
  shows "AccFilt (wiggle pm c a ps T0 dt) ! j = c"
    and "TimeStamps (wiggle pm c a ps T0 dt) ! j = T0 + dt * real j"
  using assms by (simp_all add: wiggle_def nth_append)

lemma wiggle_ext:
  assumes "j < 59" and "length ps \<le> 52"
  shows "AccFilt (deriv_loop (wiggle pm c a ps T0 dt)) ! j =
           (if j < 7 then c else c + a * (if j - 7 < length ps then ps ! (j - 7) else 0))"
    and "TimeStamps (deriv_loop (wiggle pm c a ps T0 dt)) ! j = T0 + dt * real j"
proof -
  have l: "j < length (AccFilt (wiggle pm c a ps T0 dt))"
    "j < length (TimeStamps (wiggle pm c a ps T0 dt))"
    using assms(1) by (simp_all add: wiggle_fields)
  show "AccFilt (deriv_loop (wiggle pm c a ps T0 dt)) ! j =
           (if j < 7 then c else c + a * (if j - 7 < length ps then ps ! (j - 7) else 0))"
  proof (cases "j < 7")
    case True
    then show ?thesis
      by (simp add: deriv_loop_AccFilt [OF l(1)] wiggle_fields TC7 wiggle_tail)
  next
    case False
    with assms have "j - 7 < 52" by simp
    with False assms show ?thesis
      by (simp add: deriv_loop_AccFilt [OF l(1)] wiggle_fields TC7 wiggle_buffer)
  qed
  show "TimeStamps (deriv_loop (wiggle pm c a ps T0 dt)) ! j = T0 + dt * real j"
  proof (cases "j < 7")
    case True
    then show ?thesis
      by (simp add: deriv_loop_TimeStamps [OF l(2)] wiggle_fields TC7 wiggle_tail)
  next
    case False
    with assms have "j - 7 < 52" by simp
    with False assms show ?thesis
      by (simp add: deriv_loop_TimeStamps [OF l(2)] wiggle_fields TC7 wiggle_buffer)
  qed
qed

lemma wiggle_locals:
  "init_locals (wiggle pm c a ps T0 dt) =
     \<lparr>prev_max_val = pm, prev_max_ts = 0, prev_min_val = 0, prev_min_ts = 0,
      new_max_val = - VERY_HIGH_VAL, new_max_ts = 0, new_min_val = VERY_HIGH_VAL, new_min_ts = 0,
      avg_max_val = 0, avg_min_val = 0, avg_time_period = 0, amp_est = 0,
      count_max_det = 0, count_min_det = 0, prevAccDer = 0\<rparr>"
  by (simp add: init_locals_def wiggle_fields) (simp add: init_state_def)

lemma for_loop_numeral:
  "for_loop (numeral k) body s = body (pred_numeral k) (for_loop (pred_numeral k) body s)"
  by (simp add: numeral_eq_Suc)

lemma for_loop_1: "for_loop 1 body s = body 0 s"
  by simp

lemmas filter_eval = filter_after_numeral filter_after_1 apply_filter_def Let_def ll_init_def

lemmas detect_eval = for_loop_numeral for_loop_1 detect_body_eq
  max_gate_def min_gate_def prev_der_def max_candidate_eq min_candidate_eq thresholds

lemma detect_loop_quiet:
  assumes "\<And>i. k \<le> i \<Longrightarrow> i < 52 \<Longrightarrow> AccDer (deriv_loop g) ! i = 0" and "k \<le> 52"
  shows "same_but_der (detect_upto k g) (detect_loop g)"
  unfolding detect_loop_def detect_upto_def Let_def SAMP_BUFF_LEN_52
  by (rule detect_quiet_tail [where b = 52]) (simp_all add: assms EPSILON_def)

lemma one_step_buffer:
  "AccBuff_CHY one_step ! 0 = 3"
  "AccBuff_CHY one_step ! 1 = 419761 / 1250000"
  "AccBuff_CHY one_step ! Suc 0 = 419761 / 1250000"
  "AccBuff_CHY one_step ! 2 = 135648921 / 50000000"
  "AccBuff_CHY one_step ! 3 = 2"
  "AccBuff_CHY one_step ! 4 = 2"
  "AccBuff_CHY one_step ! 5 = 2"
  "AccBuff_CHY one_step ! 6 = 2"
  "AccBuff_CHY one_step ! 7 = 2"
  "AccBuff_CHY one_step ! 8 = 3"
  "AccBuff_CHY one_step ! 9 = 419761 / 1250000"
  "AccBuff_CHY one_step ! 10 = 135648921 / 50000000"
  "AccBuff_CHY one_step ! 11 = 2"
  "AccBuff_CHY one_step ! 12 = 2"
  by (simp_all add: one_step_def wiggle_buffer bump_def nth_append)

lemma one_step_buffer_rest: "11 \<le> i \<Longrightarrow> i < 52 \<Longrightarrow> AccBuff_CHY one_step ! i = 2"
  by (simp add: one_step_def wiggle_buffer bump_def nth_append)

lemma one_step_filter: "ll_filter_y one_step = ll_init\<lparr>prev_in := 2, prev_prev_in := 2\<rparr>"
  by (simp add: one_step_def wiggle_fields)

lemma one_step_lengths: "length (AccDer one_step) = 52" "length (AccFilt one_step) = 72" "length (TimeStamps one_step) = 72"
  by (simp_all add: one_step_def wiggle_fields)

lemma one_step_locals:
  "init_locals one_step =
     \<lparr>prev_max_val = 0, prev_max_ts = 0, prev_min_val = 0, prev_min_ts = 0,
      new_max_val = - VERY_HIGH_VAL, new_max_ts = 0, new_min_val = VERY_HIGH_VAL, new_min_ts = 0,
      avg_max_val = 0, avg_min_val = 0, avg_time_period = 0, amp_est = 0,
      count_max_det = 0, count_min_det = 0, prevAccDer = 0\<rparr>"
  by (simp add: one_step_def wiggle_locals)

lemma one_step_steady:
  "steady (filter_after (ll_filter_y one_step) (AccBuff_CHY one_step) 13) (2)"
  by (simp add: one_step_filter filter_eval one_step_buffer steady_def)

lemma one_step_der:
  "AccDer (deriv_loop one_step) ! 0 = 25369363 / 10000000"
  "AccDer (deriv_loop one_step) ! 1 = 0"
  "AccDer (deriv_loop one_step) ! Suc 0 = 0"
  "AccDer (deriv_loop one_step) ! 2 = - (25369363 / 10000000)"
  "AccDer (deriv_loop one_step) ! 3 = 0"
  "AccDer (deriv_loop one_step) ! 4 = 0"
  "AccDer (deriv_loop one_step) ! 5 = 0"
  "AccDer (deriv_loop one_step) ! 6 = 0"
  "AccDer (deriv_loop one_step) ! 7 = 0"
  "AccDer (deriv_loop one_step) ! 8 = 25369363 / 10000000"
  "AccDer (deriv_loop one_step) ! 9 = 0"
  "AccDer (deriv_loop one_step) ! 10 = - (25369363 / 10000000)"
  "AccDer (deriv_loop one_step) ! 11 = 0"
  "AccDer (deriv_loop one_step) ! 12 = 0"
  by (simp_all add: deriv_loop_AccDer one_step_lengths one_step_filter filter_eval one_step_buffer)

lemma one_step_der_rest:
  assumes "13 \<le> i" and "i < 52"
  shows "AccDer (deriv_loop one_step) ! i = 0"
proof -
  have "fst (apply_filter (filter_after (ll_filter_y one_step) (AccBuff_CHY one_step) i)
          (AccBuff_CHY one_step ! i)) = 0"
    by (rule steady_outputs [OF one_step_steady _ assms]) (simp add: one_step_buffer_rest)
  then show ?thesis
    using assms by (simp add: deriv_loop_AccDer one_step_lengths)
qed

lemma one_step_ext:
  "AccFilt (deriv_loop one_step) ! 0 = 2"
  "TimeStamps (deriv_loop one_step) ! 0 = 1"
  "AccFilt (deriv_loop one_step) ! 1 = 2"
  "TimeStamps (deriv_loop one_step) ! 1 = 105 / 104"
  "AccFilt (deriv_loop one_step) ! Suc 0 = 2"
  "TimeStamps (deriv_loop one_step) ! Suc 0 = 105 / 104"
  "AccFilt (deriv_loop one_step) ! 2 = 2"
  "TimeStamps (deriv_loop one_step) ! 2 = 53 / 52"
  "AccFilt (deriv_loop one_step) ! 3 = 2"
  "TimeStamps (deriv_loop one_step) ! 3 = 107 / 104"
  "AccFilt (deriv_loop one_step) ! 4 = 2"
  "TimeStamps (deriv_loop one_step) ! 4 = 27 / 26"
  "AccFilt (deriv_loop one_step) ! 5 = 2"
  "TimeStamps (deriv_loop one_step) ! 5 = 109 / 104"
  "AccFilt (deriv_loop one_step) ! 6 = 2"
  "TimeStamps (deriv_loop one_step) ! 6 = 55 / 52"
  "AccFilt (deriv_loop one_step) ! 7 = 3"
  "TimeStamps (deriv_loop one_step) ! 7 = 111 / 104"
  "AccFilt (deriv_loop one_step) ! 8 = 419761 / 1250000"
  "TimeStamps (deriv_loop one_step) ! 8 = 14 / 13"
  "AccFilt (deriv_loop one_step) ! 9 = 135648921 / 50000000"
  "TimeStamps (deriv_loop one_step) ! 9 = 113 / 104"
  "AccFilt (deriv_loop one_step) ! 10 = 2"
  "TimeStamps (deriv_loop one_step) ! 10 = 57 / 52"
  "AccFilt (deriv_loop one_step) ! 11 = 2"
  "TimeStamps (deriv_loop one_step) ! 11 = 115 / 104"
  "AccFilt (deriv_loop one_step) ! 12 = 2"
  "TimeStamps (deriv_loop one_step) ! 12 = 29 / 26"
  by (simp_all add: one_step_def wiggle_ext bump_def nth_append)

lemma one_step_upto_2:
  "count_max_det (detect_upto 2 one_step) = 0"
  "count_min_det (detect_upto 2 one_step) = 0"
  "prev_max_val (detect_upto 2 one_step) = 0"
  "locals.prev_max_ts (detect_upto 2 one_step) = 0"
  "prev_min_val (detect_upto 2 one_step) = 0"
  "locals.prev_min_ts (detect_upto 2 one_step) = 0"
  "avg_time_period (detect_upto 2 one_step) = 0"
  "amp_est (detect_upto 2 one_step) = 0"
  unfolding detect_upto_def Let_def one_step_locals
  by (simp_all add: detect_eval one_step_der one_step_ext)

lemma one_step_upto_3:
  "count_max_det (detect_upto 3 one_step) = 1"
  "count_min_det (detect_upto 3 one_step) = 0"
  "prev_max_val (detect_upto 3 one_step) = 2"
  "locals.prev_max_ts (detect_upto 3 one_step) = 53 / 52"
  "prev_min_val (detect_upto 3 one_step) = 0"
  "locals.prev_min_ts (detect_upto 3 one_step) = 0"
  "avg_time_period (detect_upto 3 one_step) = 53 / 52"
  "amp_est (detect_upto 3 one_step) = 0"
  unfolding detect_upto_def Let_def one_step_locals
  by (simp_all add: detect_eval one_step_der one_step_ext)

lemma one_step_upto_8:
  "count_max_det (detect_upto 8 one_step) = 1"
  "count_min_det (detect_upto 8 one_step) = 0"
  "prev_max_val (detect_upto 8 one_step) = 2"
  "locals.prev_max_ts (detect_upto 8 one_step) = 53 / 52"
  "prev_min_val (detect_upto 8 one_step) = 0"
  "locals.prev_min_ts (detect_upto 8 one_step) = 0"
  "avg_time_period (detect_upto 8 one_step) = 53 / 52"
  "amp_est (detect_upto 8 one_step) = 0"
  unfolding detect_upto_def Let_def one_step_locals
  by (simp_all add: detect_eval one_step_der one_step_ext)

lemma one_step_upto_9:
  "count_max_det (detect_upto 9 one_step) = 1"
  "count_min_det (detect_upto 9 one_step) = 1"
  "prev_max_val (detect_upto 9 one_step) = 2"
  "locals.prev_max_ts (detect_upto 9 one_step) = 53 / 52"
  "prev_min_val (detect_upto 9 one_step) = 419761 / 1250000"
  "locals.prev_min_ts (detect_upto 9 one_step) = 14 / 13"
  "avg_time_period (detect_upto 9 one_step) = 109 / 52"
  "amp_est (detect_upto 9 one_step) = 2080239 / 1250000"
  unfolding detect_upto_def Let_def one_step_locals
  by (simp_all add: detect_eval one_step_der one_step_ext)

lemma one_step_upto_13:
  "count_max_det (detect_upto 13 one_step) = 1"
  "count_min_det (detect_upto 13 one_step) = 1"
  "prev_max_val (detect_upto 13 one_step) = 2"
  "locals.prev_max_ts (detect_upto 13 one_step) = 53 / 52"
  "prev_min_val (detect_upto 13 one_step) = 419761 / 1250000"
  "locals.prev_min_ts (detect_upto 13 one_step) = 14 / 13"
  "avg_time_period (detect_upto 13 one_step) = 109 / 52"
  "amp_est (detect_upto 13 one_step) = 2080239 / 1250000"
  unfolding detect_upto_def Let_def one_step_locals
  by (simp_all add: detect_eval one_step_der one_step_ext)

lemma one_step_loop:
  "count_max_det (detect_loop one_step) = 1"
  "count_min_det (detect_loop one_step) = 1"
  "prev_max_val (detect_loop one_step) = 2"
  "locals.prev_max_ts (detect_loop one_step) = 53 / 52"
  "prev_min_val (detect_loop one_step) = 419761 / 1250000"
  "locals.prev_min_ts (detect_loop one_step) = 14 / 13"
  "avg_time_period (detect_loop one_step) = 109 / 52"
  "amp_est (detect_loop one_step) = 2080239 / 1250000"
proof -
  have "same_but_der (detect_upto 13 one_step) (detect_loop one_step)"
    by (rule detect_loop_quiet) (simp_all add: one_step_der_rest)
  from same_but_der_fields [OF this] show
  "count_max_det (detect_loop one_step) = 1"
  "count_min_det (detect_loop one_step) = 1"
  "prev_max_val (detect_loop one_step) = 2"
  "locals.prev_max_ts (detect_loop one_step) = 53 / 52"
  "prev_min_val (detect_loop one_step) = 419761 / 1250000"
  "locals.prev_min_ts (detect_loop one_step) = 14 / 13"
  "avg_time_period (detect_loop one_step) = 109 / 52"
  "amp_est (detect_loop one_step) = 2080239 / 1250000"
    by (simp_all add: one_step_upto_13)
qed


































lemma clamp_only_buffer:
  "AccBuff_CHY clamp_only ! 0 = - (21 / 10)"
  "AccBuff_CHY clamp_only ! 1 = - (22919761 / 12500000)"
  "AccBuff_CHY clamp_only ! Suc 0 = - (22919761 / 12500000)"
  "AccBuff_CHY clamp_only ! 2 = - (1035648921 / 500000000)"
  "AccBuff_CHY clamp_only ! 3 = - 2"
  "AccBuff_CHY clamp_only ! 4 = - 2"
  by (simp_all add: clamp_only_def wiggle_buffer bump_def nth_append)

lemma clamp_only_buffer_rest: "3 \<le> i \<Longrightarrow> i < 52 \<Longrightarrow> AccBuff_CHY clamp_only ! i = - 2"
  by (simp add: clamp_only_def wiggle_buffer bump_def nth_append)

lemma clamp_only_filter: "ll_filter_y clamp_only = ll_init\<lparr>prev_in := - 2, prev_prev_in := - 2\<rparr>"
  by (simp add: clamp_only_def wiggle_fields)

lemma clamp_only_lengths: "length (AccDer clamp_only) = 52" "length (AccFilt clamp_only) = 72" "length (TimeStamps clamp_only) = 72"
  by (simp_all add: clamp_only_def wiggle_fields)

lemma clamp_only_locals:
  "init_locals clamp_only =
     \<lparr>prev_max_val = - 1, prev_max_ts = 0, prev_min_val = 0, prev_min_ts = 0,
      new_max_val = - VERY_HIGH_VAL, new_max_ts = 0, new_min_val = VERY_HIGH_VAL, new_min_ts = 0,
      avg_max_val = 0, avg_min_val = 0, avg_time_period = 0, amp_est = 0,
      count_max_det = 0, count_min_det = 0, prevAccDer = 0\<rparr>"
  by (simp add: clamp_only_def wiggle_locals)

lemma clamp_only_steady:
  "steady (filter_after (ll_filter_y clamp_only) (AccBuff_CHY clamp_only) 5) (- 2)"
  by (simp add: clamp_only_filter filter_eval clamp_only_buffer steady_def)

lemma clamp_only_der:
  "AccDer (deriv_loop clamp_only) ! 0 = - (25369363 / 100000000)"
  "AccDer (deriv_loop clamp_only) ! 1 = 0"
  "AccDer (deriv_loop clamp_only) ! Suc 0 = 0"
  "AccDer (deriv_loop clamp_only) ! 2 = 25369363 / 100000000"
  "AccDer (deriv_loop clamp_only) ! 3 = 0"
  "AccDer (deriv_loop clamp_only) ! 4 = 0"
  by (simp_all add: deriv_loop_AccDer clamp_only_lengths clamp_only_filter filter_eval clamp_only_buffer)

lemma clamp_only_der_rest:
  assumes "5 \<le> i" and "i < 52"
  shows "AccDer (deriv_loop clamp_only) ! i = 0"
proof -
  have "fst (apply_filter (filter_after (ll_filter_y clamp_only) (AccBuff_CHY clamp_only) i)
          (AccBuff_CHY clamp_only ! i)) = 0"
    by (rule steady_outputs [OF clamp_only_steady _ assms]) (simp add: clamp_only_buffer_rest)
  then show ?thesis
    using assms by (simp add: deriv_loop_AccDer clamp_only_lengths)
qed

lemma clamp_only_ext:
  "AccFilt (deriv_loop clamp_only) ! 0 = - 2"
  "TimeStamps (deriv_loop clamp_only) ! 0 = 2"
  "AccFilt (deriv_loop clamp_only) ! 1 = - 2"
  "TimeStamps (deriv_loop clamp_only) ! 1 = 209 / 104"
  "AccFilt (deriv_loop clamp_only) ! Suc 0 = - 2"
  "TimeStamps (deriv_loop clamp_only) ! Suc 0 = 209 / 104"
  "AccFilt (deriv_loop clamp_only) ! 2 = - 2"
  "TimeStamps (deriv_loop clamp_only) ! 2 = 105 / 52"
  "AccFilt (deriv_loop clamp_only) ! 3 = - 2"
  "TimeStamps (deriv_loop clamp_only) ! 3 = 211 / 104"
  "AccFilt (deriv_loop clamp_only) ! 4 = - 2"
  "TimeStamps (deriv_loop clamp_only) ! 4 = 53 / 26"
  by (simp_all add: clamp_only_def wiggle_ext bump_def nth_append)

lemma clamp_only_upto_5:
  "count_max_det (detect_upto 5 clamp_only) = 0"
  "count_min_det (detect_upto 5 clamp_only) = 0"
  "prev_max_val (detect_upto 5 clamp_only) = - 1"
  "locals.prev_max_ts (detect_upto 5 clamp_only) = 1 / 2"
  "prev_min_val (detect_upto 5 clamp_only) = 0"
  "locals.prev_min_ts (detect_upto 5 clamp_only) = 27 / 52"
  "avg_time_period (detect_upto 5 clamp_only) = 0"
  "amp_est (detect_upto 5 clamp_only) = 0"
  unfolding detect_upto_def Let_def clamp_only_locals
  by (simp_all add: detect_eval clamp_only_der clamp_only_ext)

lemma clamp_only_loop:
  "count_max_det (detect_loop clamp_only) = 0"
  "count_min_det (detect_loop clamp_only) = 0"
  "prev_max_val (detect_loop clamp_only) = - 1"
  "locals.prev_max_ts (detect_loop clamp_only) = 1 / 2"
  "prev_min_val (detect_loop clamp_only) = 0"
  "locals.prev_min_ts (detect_loop clamp_only) = 27 / 52"
  "avg_time_period (detect_loop clamp_only) = 0"
  "amp_est (detect_loop clamp_only) = 0"
proof -
  have "same_but_der (detect_upto 5 clamp_only) (detect_loop clamp_only)"
    by (rule detect_loop_quiet) (simp_all add: clamp_only_der_rest)
  from same_but_der_fields [OF this] show
  "count_max_det (detect_loop clamp_only) = 0"
  "count_min_det (detect_loop clamp_only) = 0"
  "prev_max_val (detect_loop clamp_only) = - 1"
  "locals.prev_max_ts (detect_loop clamp_only) = 1 / 2"
  "prev_min_val (detect_loop clamp_only) = 0"
  "locals.prev_min_ts (detect_loop clamp_only) = 27 / 52"
  "avg_time_period (detect_loop clamp_only) = 0"
  "amp_est (detect_loop clamp_only) = 0"
    by (simp_all add: clamp_only_upto_5)
qed

lemma at_rest_buffer:
  "AccBuff_CHY at_rest ! 0 = 2"
  "AccBuff_CHY at_rest ! 1 = 2"
  "AccBuff_CHY at_rest ! Suc 0 = 2"
  by (simp_all add: at_rest_def wiggle_buffer bump_def nth_append)

lemma at_rest_buffer_rest: "0 \<le> i \<Longrightarrow> i < 52 \<Longrightarrow> AccBuff_CHY at_rest ! i = 2"
  by (simp add: at_rest_def wiggle_buffer bump_def nth_append)

lemma at_rest_filter: "ll_filter_y at_rest = ll_init\<lparr>prev_in := 2, prev_prev_in := 2\<rparr>"
  by (simp add: at_rest_def wiggle_fields)

lemma at_rest_lengths: "length (AccDer at_rest) = 52" "length (AccFilt at_rest) = 72" "length (TimeStamps at_rest) = 72"
  by (simp_all add: at_rest_def wiggle_fields)

lemma at_rest_locals:
  "init_locals at_rest =
     \<lparr>prev_max_val = 0, prev_max_ts = 0, prev_min_val = 0, prev_min_ts = 0,
      new_max_val = - VERY_HIGH_VAL, new_max_ts = 0, new_min_val = VERY_HIGH_VAL, new_min_ts = 0,
      avg_max_val = 0, avg_min_val = 0, avg_time_period = 0, amp_est = 0,
      count_max_det = 0, count_min_det = 0, prevAccDer = 0\<rparr>"
  by (simp add: at_rest_def wiggle_locals)

lemma at_rest_steady:
  "steady (filter_after (ll_filter_y at_rest) (AccBuff_CHY at_rest) 2) (2)"
  by (simp add: at_rest_filter filter_eval at_rest_buffer steady_def)

lemma at_rest_der:
  "AccDer (deriv_loop at_rest) ! 0 = 0"
  "AccDer (deriv_loop at_rest) ! 1 = 0"
  "AccDer (deriv_loop at_rest) ! Suc 0 = 0"
  by (simp_all add: deriv_loop_AccDer at_rest_lengths at_rest_filter filter_eval at_rest_buffer)

lemma at_rest_der_rest:
  assumes "2 \<le> i" and "i < 52"
  shows "AccDer (deriv_loop at_rest) ! i = 0"
proof -
  have "fst (apply_filter (filter_after (ll_filter_y at_rest) (AccBuff_CHY at_rest) i)
          (AccBuff_CHY at_rest ! i)) = 0"
    by (rule steady_outputs [OF at_rest_steady _ assms]) (simp add: at_rest_buffer_rest)
  then show ?thesis
    using assms by (simp add: deriv_loop_AccDer at_rest_lengths)
qed

lemma at_rest_ext:
  "AccFilt (deriv_loop at_rest) ! 0 = 2"
  "TimeStamps (deriv_loop at_rest) ! 0 = 1"
  "AccFilt (deriv_loop at_rest) ! 1 = 2"
  "TimeStamps (deriv_loop at_rest) ! 1 = 105 / 104"
  "AccFilt (deriv_loop at_rest) ! Suc 0 = 2"
  "TimeStamps (deriv_loop at_rest) ! Suc 0 = 105 / 104"
  by (simp_all add: at_rest_def wiggle_ext bump_def nth_append)

lemma at_rest_upto_2:
  "count_max_det (detect_upto 2 at_rest) = 0"
  "count_min_det (detect_upto 2 at_rest) = 0"
  "prev_max_val (detect_upto 2 at_rest) = 0"
  "locals.prev_max_ts (detect_upto 2 at_rest) = 0"
  "prev_min_val (detect_upto 2 at_rest) = 0"
  "locals.prev_min_ts (detect_upto 2 at_rest) = 0"
  "avg_time_period (detect_upto 2 at_rest) = 0"
  "amp_est (detect_upto 2 at_rest) = 0"
  unfolding detect_upto_def Let_def at_rest_locals
  by (simp_all add: detect_eval at_rest_der at_rest_ext)

lemma at_rest_loop:
  "count_max_det (detect_loop at_rest) = 0"
  "count_min_det (detect_loop at_rest) = 0"
  "prev_max_val (detect_loop at_rest) = 0"
  "locals.prev_max_ts (detect_loop at_rest) = 0"
  "prev_min_val (detect_loop at_rest) = 0"
  "locals.prev_min_ts (detect_loop at_rest) = 0"
  "avg_time_period (detect_loop at_rest) = 0"
  "amp_est (detect_loop at_rest) = 0"
proof -
  have "same_but_der (detect_upto 2 at_rest) (detect_loop at_rest)"
    by (rule detect_loop_quiet) (simp_all add: at_rest_der_rest)
  from same_but_der_fields [OF this] show
  "count_max_det (detect_loop at_rest) = 0"
  "count_min_det (detect_loop at_rest) = 0"
  "prev_max_val (detect_loop at_rest) = 0"
  "locals.prev_max_ts (detect_loop at_rest) = 0"
  "prev_min_val (detect_loop at_rest) = 0"
  "locals.prev_min_ts (detect_loop at_rest) = 0"
  "avg_time_period (detect_loop at_rest) = 0"
  "amp_est (detect_loop at_rest) = 0"
    by (simp_all add: at_rest_upto_2)
qed

lemma preproc_flag_all:
  "fst (process_sample x (process_all xs init_state)) = (if (length xs + 1) mod 52 = 0 then 1 else 0)"
proof -
  have c: "count (process_all xs init_state) = length xs mod 52"
    using count_process_all [of init_state xs] by (simp add: count_init)
  have lt: "length xs mod 52 < 52" by simp
  have "(length xs mod 52 + 1 = 52) = ((length xs + 1) mod 52 = 0)"
    by presburger
  then show ?thesis
    by (simp add: process_sample_def preproc_call c split_beta)
qed

subsection \<open>Runs of the driver\<close>

lemma process_sample_cong:
  assumes "timestamp x = timestamp y" and "ary x = ary y"
  shows "process_sample x g = process_sample y g"
  using assms by (simp add: process_sample_def preproc_call)

lemma process_agree:
  assumes "map timestamp xs = map timestamp ys" and "map ary xs = map ary ys"
  shows "process_trace xs g = process_trace ys g \<and> process_all xs g = process_all ys g"
  using assms
proof (induction xs arbitrary: ys g)
  case Nil
  then show ?case by simp
next
  case (Cons x xs)
  then obtain y ys' where ys: "ys = y # ys'" by (cases ys) auto
  with Cons.prems have xy: "timestamp x = timestamp y" "ary x = ary y"
    and rest: "map timestamp xs = map timestamp ys'" "map ary xs = map ary ys'"
    by simp_all
  have ps: "process_sample x g = process_sample y g"
    by (rule process_sample_cong [OF xy])
  show ?case
    using Cons.IH [OF rest, of "snd (process_sample y g)"]
    by (simp add: ys ps split_beta)
qed

lemma classify_one_class:
  "(num_steps_walk (classify a f c g) = num_steps_walk g + (if step_type (step_algo_output (classify a f c g)) = WALK then of_nat c else 0))
   \<and> (num_steps_run (classify a f c g) = num_steps_run g + (if step_type (step_algo_output (classify a f c g)) = RUN then of_nat c else 0))
   \<and> (num_steps_hop (classify a f c g) = num_steps_hop g + (if step_type (step_algo_output (classify a f c g)) = HOP then of_nat c else 0))"
  by (simp add: classify_def)

lemma run_one_class:
  "num_steps_walk (step_algo_run g) = num_steps_walk g
     + (if step_type (step_algo_output (step_algo_run g)) = WALK then of_nat (count_min_det (detect_loop g)) else 0)"
  "num_steps_run (step_algo_run g) = num_steps_run g
     + (if step_type (step_algo_output (step_algo_run g)) = RUN then of_nat (count_min_det (detect_loop g)) else 0)"
  "num_steps_hop (step_algo_run g) = num_steps_hop g
     + (if step_type (step_algo_output (step_algo_run g)) = HOP then of_nat (count_min_det (detect_loop g)) else 0)"
  by (simp_all add: step_algo_run_def Let_def split_beta classify_one_class
      tail_loop_frame deriv_loop_frame)

lemma wiggle_estimates:
  "prev_amp_est (wiggle pm c a ps T0 dt) = 0" "prev_freq_est (wiggle pm c a ps T0 dt) = 0"
  "amp_est_hold (wiggle pm c a ps T0 dt) = 0" "freq_est_hold (wiggle pm c a ps T0 dt) = 0"
  "num_steps_walk (wiggle pm c a ps T0 dt) = 0" "num_steps_run (wiggle pm c a ps T0 dt) = 0"
  "num_steps_hop (wiggle pm c a ps T0 dt) = 0"
  "step_count (step_algo_output (wiggle pm c a ps T0 dt)) = 0"
  "algo_out_t.prev_max_ts (step_algo_output (wiggle pm c a ps T0 dt)) = 0"
  "algo_out_t.prev_min_ts (step_algo_output (wiggle pm c a ps T0 dt)) = 0"
  "prev_max (step_algo_output (wiggle pm c a ps T0 dt)) = pm"
  "prev_min (step_algo_output (wiggle pm c a ps T0 dt)) = 0"
  by (simp_all add: wiggle_def init_state_def)


subsection \<open>The counters before they can wrap\<close>

lemma detect_upto_Suc:
  "detect_upto (Suc n) g =
     detect_body (AccDer (deriv_loop g)) (AccFilt (deriv_loop g)) (TimeStamps (deriv_loop g)) n
       (detect_upto n g)"
  by (simp add: detect_upto_def Let_def)

lemma detect_upto_0: "detect_upto 0 g = init_locals g"
  by (simp add: detect_upto_def)








subsection \<open>Batches without a commit\<close>

lemma counts_upto_mono:
  assumes "n \<le> m"
  shows "count_max_det (detect_upto n g) \<le> count_max_det (detect_upto m g)"
    and "count_min_det (detect_upto n g) \<le> count_min_det (detect_upto m g)"
    and "locals.prev_max_ts (detect_upto n g) \<le> locals.prev_max_ts (detect_upto m g)"
    and "locals.prev_min_ts (detect_upto n g) \<le> locals.prev_min_ts (detect_upto m g)"
proof -
  have "count_max_det (detect_upto n g) \<le> count_max_det (detect_upto m g)
      \<and> count_min_det (detect_upto n g) \<le> count_min_det (detect_upto m g)
      \<and> locals.prev_max_ts (detect_upto n g) \<le> locals.prev_max_ts (detect_upto m g)
      \<and> locals.prev_min_ts (detect_upto n g) \<le> locals.prev_min_ts (detect_upto m g)"
    using assms
  proof (induction m)
    case 0
    then show ?case by simp
  next
    case (Suc m)
    show ?case
    proof (cases "n = Suc m")
      case True
      then show ?thesis by simp
    next
      case False
      with Suc.prems have "n \<le> m" by simp
      note ih = Suc.IH [OF this]
      let ?b = "detect_body (AccDer (deriv_loop g)) (AccFilt (deriv_loop g)) (TimeStamps (deriv_loop g)) m
                  (detect_upto m g)"
      have "count_max_det (detect_upto m g) \<le> count_max_det ?b"
        "count_min_det (detect_upto m g) \<le> count_min_det ?b"
        "locals.prev_max_ts (detect_upto m g) \<le> locals.prev_max_ts ?b"
        "locals.prev_min_ts (detect_upto m g) \<le> locals.prev_min_ts ?b"
        by (rule detect_body_counts detect_body_ts_mono)+
      with ih show ?thesis
        unfolding detect_upto_Suc by linarith
    qed
  qed
  then show "count_max_det (detect_upto n g) \<le> count_max_det (detect_upto m g)"
    and "count_min_det (detect_upto n g) \<le> count_min_det (detect_upto m g)"
    and "locals.prev_max_ts (detect_upto n g) \<le> locals.prev_max_ts (detect_upto m g)"
    and "locals.prev_min_ts (detect_upto n g) \<le> locals.prev_min_ts (detect_upto m g)"
    by blast+
qed

lemma init_locals_fields:
  "prev_max_val (init_locals g) = prev_max (step_algo_output g)"
  "locals.prev_max_ts (init_locals g) = algo_out_t.prev_max_ts (step_algo_output g)"
  "prev_min_val (init_locals g) = prev_min (step_algo_output g)"
  "locals.prev_min_ts (init_locals g) = algo_out_t.prev_min_ts (step_algo_output g)"
  "count_max_det (init_locals g) = 0" "count_min_det (init_locals g) = 0"
  by (simp_all add: init_locals_def)

lemma detect_body_clamp_max:
  assumes "count_max_det (detect_body ad af ts i l) = count_max_det l"
  shows "locals.prev_max_ts (detect_body ad af ts i l) = locals.prev_max_ts l
     \<or> locals.prev_max_ts (detect_body ad af ts i l) = ts ! i - MAX_TIME_PERIOD_SEC"
  using assms by (simp add: detect_body_eq max_candidate_eq min_candidate_eq split: if_splits)

lemma detect_body_clamp_min:
  assumes "count_min_det (detect_body ad af ts i l) = count_min_det l"
  shows "locals.prev_min_ts (detect_body ad af ts i l) = locals.prev_min_ts l
     \<or> locals.prev_min_ts (detect_body ad af ts i l) = ts ! i - MAX_TIME_PERIOD_SEC"
  using assms by (simp add: detect_body_eq max_candidate_eq min_candidate_eq split: if_splits)

lemma no_max_commit_upto:
  assumes "count_max_det (detect_upto m g) = 0"
  shows "n \<le> m \<Longrightarrow> prev_max_val (detect_upto n g) = prev_max (step_algo_output g)
     \<and> (locals.prev_max_ts (detect_upto n g) = algo_out_t.prev_max_ts (step_algo_output g)
        \<or> (\<exists>i<n. locals.prev_max_ts (detect_upto n g)
              = TimeStamps (deriv_loop g) ! i - MAX_TIME_PERIOD_SEC))"
proof (induction n)
  case 0
  show ?case by (simp add: detect_upto_0 init_locals_fields)
next
  case (Suc n)
  then have nm: "n \<le> m" by simp
  let ?b = "detect_body (AccDer (deriv_loop g)) (AccFilt (deriv_loop g)) (TimeStamps (deriv_loop g)) n
              (detect_upto n g)"
  have z: "count_max_det (detect_upto (Suc n) g) = 0" "count_max_det (detect_upto n g) = 0"
    using counts_upto_mono(1) [OF Suc.prems, of g] counts_upto_mono(1) [OF nm, of g] assms by simp_all
  then have same: "count_max_det ?b = count_max_det (detect_upto n g)"
    by (simp add: detect_upto_Suc)
  have v: "prev_max_val ?b = prev_max_val (detect_upto n g)"
    by (rule detect_body_keeps_max_val [OF same])
  have t: "locals.prev_max_ts ?b = locals.prev_max_ts (detect_upto n g)
     \<or> locals.prev_max_ts ?b = TimeStamps (deriv_loop g) ! n - MAX_TIME_PERIOD_SEC"
    by (rule detect_body_clamp_max [OF same])
  show ?case
    using Suc.IH [OF nm] v t unfolding detect_upto_Suc
    by (auto simp add: less_Suc_eq)
qed

lemma no_min_commit_upto:
  assumes "count_min_det (detect_upto m g) = 0"
  shows "n \<le> m \<Longrightarrow> prev_min_val (detect_upto n g) = prev_min (step_algo_output g)
     \<and> (locals.prev_min_ts (detect_upto n g) = algo_out_t.prev_min_ts (step_algo_output g)
        \<or> (\<exists>i<n. locals.prev_min_ts (detect_upto n g)
              = TimeStamps (deriv_loop g) ! i - MAX_TIME_PERIOD_SEC))"
proof (induction n)
  case 0
  show ?case by (simp add: detect_upto_0 init_locals_fields)
next
  case (Suc n)
  then have nm: "n \<le> m" by simp
  let ?b = "detect_body (AccDer (deriv_loop g)) (AccFilt (deriv_loop g)) (TimeStamps (deriv_loop g)) n
              (detect_upto n g)"
  have z: "count_min_det (detect_upto (Suc n) g) = 0" "count_min_det (detect_upto n g) = 0"
    using counts_upto_mono(2) [OF Suc.prems, of g] counts_upto_mono(2) [OF nm, of g] assms by simp_all
  then have same: "count_min_det ?b = count_min_det (detect_upto n g)"
    by (simp add: detect_upto_Suc)
  have v: "prev_min_val ?b = prev_min_val (detect_upto n g)"
    by (rule detect_body_keeps_min_val [OF same])
  have t: "locals.prev_min_ts ?b = locals.prev_min_ts (detect_upto n g)
     \<or> locals.prev_min_ts ?b = TimeStamps (deriv_loop g) ! n - MAX_TIME_PERIOD_SEC"
    by (rule detect_body_clamp_min [OF same])
  show ?case
    using Suc.IH [OF nm] v t unfolding detect_upto_Suc
    by (auto simp add: less_Suc_eq)
qed

lemma run_class_counters_unchanged:
  assumes "count_min_det (detect_loop g) = 0"
  shows "num_steps_walk (step_algo_run g) = num_steps_walk g"
    "num_steps_run (step_algo_run g) = num_steps_run g"
    "num_steps_hop (step_algo_run g) = num_steps_hop g"
  using assms by (simp_all add: run_one_class)

subsection \<open>The candidates of an iteration\<close>













subsection \<open>Windows with a small swing\<close>








subsection \<open>Commits of one kind are more than the dead time apart\<close>

lemma max_commits_upto_Suc:
  "max_commits_upto (Suc n) g = max_commits_upto n g @
     (if count_max_det (detect_upto (Suc n) g) \<noteq> count_max_det (detect_upto n g)
      then [locals.prev_max_ts (detect_upto (Suc n) g)] else [])"
  by (simp add: max_commits_upto_def)

lemma min_commits_upto_Suc:
  "min_commits_upto (Suc n) g = min_commits_upto n g @
     (if count_min_det (detect_upto (Suc n) g) \<noteq> count_min_det (detect_upto n g)
      then [locals.prev_min_ts (detect_upto (Suc n) g)] else [])"
  by (simp add: min_commits_upto_def)

lemma max_commits_upto_bounds:
  "sorted_wrt apart (max_commits_upto n g) \<and>
   (\<forall>t \<in> set (max_commits_upto n g).
      apart (algo_out_t.prev_max_ts (step_algo_output g)) t \<and> t \<le> locals.prev_max_ts (detect_upto n g))"
proof (induction n)
  case 0
  show ?case by (simp add: max_commits_upto_def)
next
  case (Suc n)
  let ?ad = "AccDer (deriv_loop g)" and ?af = "AccFilt (deriv_loop g)"
    and ?ts = "TimeStamps (deriv_loop g)" and ?l = "detect_upto n g"
  let ?l' = "detect_upto (Suc n) g"
  have mono: "locals.prev_max_ts ?l \<le> locals.prev_max_ts ?l'"
    by (rule counts_upto_mono(3)) simp
  have entry: "algo_out_t.prev_max_ts (step_algo_output g) \<le> locals.prev_max_ts ?l"
    using counts_upto_mono(3) [of 0 n g] by (simp add: detect_upto_0 init_locals_fields)
  show ?case
  proof (cases "count_max_det ?l' \<noteq> count_max_det ?l")
    case False
    then have "max_commits_upto (Suc n) g = max_commits_upto n g"
      by (simp add: max_commits_upto_Suc)
    with Suc mono show ?thesis by auto
  next
    case True
    then have c: "count_max_det (detect_body ?ad ?af ?ts n ?l) \<noteq> count_max_det ?l"
      by (simp add: detect_upto_Suc)
    have "max_gate ?ad ?ts n ?l" by (rule detect_body_max_commit(1) [OF c])
    then have gap: "apart (locals.prev_max_ts ?l) (?ts ! n)"
      by (simp add: max_gate_def apart_def)
    have t: "locals.prev_max_ts ?l' = ?ts ! n"
      unfolding detect_upto_Suc by (rule detect_body_max_commit(6) [OF c])
    have e: "max_commits_upto (Suc n) g = max_commits_upto n g @ [?ts ! n]"
      using True by (simp add: max_commits_upto_Suc t)
    have old: "\<forall>s \<in> set (max_commits_upto n g). apart s (?ts ! n)"
      using Suc gap by (auto simp add: apart_def)
    have new: "apart (algo_out_t.prev_max_ts (step_algo_output g)) (?ts ! n)"
      using gap entry by (simp add: apart_def)
    show ?thesis
      using Suc old new mono by (auto simp add: e t sorted_wrt_append)
  qed
qed

lemma min_commits_upto_bounds:
  "sorted_wrt apart (min_commits_upto n g) \<and>
   (\<forall>t \<in> set (min_commits_upto n g).
      apart (algo_out_t.prev_min_ts (step_algo_output g)) t \<and> t \<le> locals.prev_min_ts (detect_upto n g))"
proof (induction n)
  case 0
  show ?case by (simp add: min_commits_upto_def)
next
  case (Suc n)
  let ?ad = "AccDer (deriv_loop g)" and ?af = "AccFilt (deriv_loop g)"
    and ?ts = "TimeStamps (deriv_loop g)" and ?l = "detect_upto n g"
  let ?l' = "detect_upto (Suc n) g"
  have mono: "locals.prev_min_ts ?l \<le> locals.prev_min_ts ?l'"
    by (rule counts_upto_mono(4)) simp
  have entry: "algo_out_t.prev_min_ts (step_algo_output g) \<le> locals.prev_min_ts ?l"
    using counts_upto_mono(4) [of 0 n g] by (simp add: detect_upto_0 init_locals_fields)
  show ?case
  proof (cases "count_min_det ?l' \<noteq> count_min_det ?l")
    case False
    then have "min_commits_upto (Suc n) g = min_commits_upto n g"
      by (simp add: min_commits_upto_Suc)
    with Suc mono show ?thesis by auto
  next
    case True
    then have c: "count_min_det (detect_body ?ad ?af ?ts n ?l) \<noteq> count_min_det ?l"
      by (simp add: detect_upto_Suc)
    have "min_gate ?ad ?ts n ?l" by (rule detect_body_min_commit(1) [OF c])
    then have gap: "apart (locals.prev_min_ts ?l) (?ts ! n)"
      by (simp add: min_gate_def apart_def)
    have t: "locals.prev_min_ts ?l' = ?ts ! n"
      unfolding detect_upto_Suc by (rule detect_body_min_commit(5) [OF c])
    have e: "min_commits_upto (Suc n) g = min_commits_upto n g @ [?ts ! n]"
      using True by (simp add: min_commits_upto_Suc t)
    have old: "\<forall>s \<in> set (min_commits_upto n g). apart s (?ts ! n)"
      using Suc gap by (auto simp add: apart_def)
    have new: "apart (algo_out_t.prev_min_ts (step_algo_output g)) (?ts ! n)"
      using gap entry by (simp add: apart_def)
    show ?thesis
      using Suc old new mono by (auto simp add: e t sorted_wrt_append)
  qed
qed

lemma process_sample_cases:
  "(fst (process_sample x g) = 1 \<and>
      snd (process_sample x g) = step_algo_run
        (snd (step_algo_preproc (timestamp x) (arx x) (ary x) (arz x) (grx x) (gry x) (grz x) g)))
   \<or> (fst (process_sample x g) \<noteq> 1 \<and>
      snd (process_sample x g) =
        snd (step_algo_preproc (timestamp x) (arx x) (ary x) (arz x) (grx x) (gry x) (grz x) g))"
  by (simp add: process_sample_def split_beta)

lemma max_commits_run_bounds:
  "sorted_wrt apart (max_commits_run xs g) \<and>
   (\<forall>t \<in> set (max_commits_run xs g).
      apart (algo_out_t.prev_max_ts (step_algo_output g)) t \<and>
      t \<le> algo_out_t.prev_max_ts (step_algo_output (process_all xs g))) \<and>
   algo_out_t.prev_max_ts (step_algo_output g)
     \<le> algo_out_t.prev_max_ts (step_algo_output (process_all xs g))"
proof (induction xs arbitrary: g)
  case Nil
  show ?case by simp
next
  case (Cons x xs)
  define g1 where "g1 = snd (step_algo_preproc (timestamp x) (arx x) (ary x) (arz x) (grx x) (gry x) (grz x) g)"
  define g' where "g' = snd (process_sample x g)"
  define A where "A = (if fst (process_sample x g) = 1 then max_commits_upto SAMP_BUFF_LEN g1 else [])"
  define B where "B = max_commits_run xs g'"
  have fr: "step_algo_output g1 = step_algo_output g"
    unfolding g1_def by (rule preproc_frame(1))
  have L: "max_commits_run (x # xs) g = A @ B"
    by (simp add: A_def B_def g1_def g'_def)
  have fin: "process_all (x # xs) g = process_all xs g'"
    by (simp add: g'_def)
  note ih = Cons.IH [of g', folded B_def]
  have a: "sorted_wrt apart A \<and>
     (\<forall>t \<in> set A. apart (algo_out_t.prev_max_ts (step_algo_output g)) t \<and>
        t \<le> algo_out_t.prev_max_ts (step_algo_output g')) \<and>
     algo_out_t.prev_max_ts (step_algo_output g) \<le> algo_out_t.prev_max_ts (step_algo_output g')"
  proof (cases "fst (process_sample x g) = 1")
    case True
    then have r: "g' = step_algo_run g1"
      using process_sample_cases [of x g] by (simp add: g'_def g1_def)
    have o: "algo_out_t.prev_max_ts (step_algo_output g') = locals.prev_max_ts (detect_upto SAMP_BUFF_LEN g1)"
      by (simp add: r run_output detect_loop_def)
    have m: "algo_out_t.prev_max_ts (step_algo_output g) \<le> locals.prev_max_ts (detect_upto SAMP_BUFF_LEN g1)"
      using counts_upto_mono(3) [of 0 SAMP_BUFF_LEN g1]
      by (simp add: detect_upto_0 init_locals_fields fr)
    show ?thesis
      using max_commits_upto_bounds [of SAMP_BUFF_LEN g1] True m
      by (simp add: A_def o fr)
  next
    case False
    then have "g' = g1"
      using process_sample_cases [of x g] by (simp add: g'_def g1_def)
    with False show ?thesis by (simp add: A_def fr)
  qed
  have le: "algo_out_t.prev_max_ts (step_algo_output g) \<le> algo_out_t.prev_max_ts (step_algo_output g')"
    and le': "algo_out_t.prev_max_ts (step_algo_output g')
       \<le> algo_out_t.prev_max_ts (step_algo_output (process_all xs g'))"
    using a ih by blast+
  have cross: "\<forall>s \<in> set A. \<forall>t \<in> set B. apart s t"
  proof (intro ballI)
    fix s t assume s: "s \<in> set A" and t: "t \<in> set B"
    have "s \<le> algo_out_t.prev_max_ts (step_algo_output g')" using a s by blast
    moreover have "apart (algo_out_t.prev_max_ts (step_algo_output g')) t" using ih t by blast
    ultimately show "apart s t" by (simp add: apart_def)
  qed
  have first: "\<forall>t \<in> set B. apart (algo_out_t.prev_max_ts (step_algo_output g)) t"
  proof
    fix t assume t: "t \<in> set B"
    have "apart (algo_out_t.prev_max_ts (step_algo_output g')) t" using ih t by blast
    with le show "apart (algo_out_t.prev_max_ts (step_algo_output g)) t" by (simp add: apart_def)
  qed
  have last: "\<forall>t \<in> set A. t \<le> algo_out_t.prev_max_ts (step_algo_output (process_all xs g'))"
  proof
    fix t assume t: "t \<in> set A"
    have "t \<le> algo_out_t.prev_max_ts (step_algo_output g')" using a t by blast
    with le' show "t \<le> algo_out_t.prev_max_ts (step_algo_output (process_all xs g'))" by simp
  qed
  have 1: "sorted_wrt apart (A @ B)"
    using a ih cross by (simp add: sorted_wrt_append)
  have 2: "\<forall>t \<in> set (A @ B). apart (algo_out_t.prev_max_ts (step_algo_output g)) t \<and>
      t \<le> algo_out_t.prev_max_ts (step_algo_output (process_all xs g'))"
    using a ih first last by auto
  have 3: "algo_out_t.prev_max_ts (step_algo_output g)
     \<le> algo_out_t.prev_max_ts (step_algo_output (process_all xs g'))"
    using le le' by simp
  show ?case
    unfolding L fin using 1 2 3 by blast
qed

lemma min_commits_run_bounds:
  "sorted_wrt apart (min_commits_run xs g) \<and>
   (\<forall>t \<in> set (min_commits_run xs g).
      apart (algo_out_t.prev_min_ts (step_algo_output g)) t \<and>
      t \<le> algo_out_t.prev_min_ts (step_algo_output (process_all xs g))) \<and>
   algo_out_t.prev_min_ts (step_algo_output g)
     \<le> algo_out_t.prev_min_ts (step_algo_output (process_all xs g))"
proof (induction xs arbitrary: g)
  case Nil
  show ?case by simp
next
  case (Cons x xs)
  define g1 where "g1 = snd (step_algo_preproc (timestamp x) (arx x) (ary x) (arz x) (grx x) (gry x) (grz x) g)"
  define g' where "g' = snd (process_sample x g)"
  define A where "A = (if fst (process_sample x g) = 1 then min_commits_upto SAMP_BUFF_LEN g1 else [])"
  define B where "B = min_commits_run xs g'"
  have fr: "step_algo_output g1 = step_algo_output g"
    unfolding g1_def by (rule preproc_frame(1))
  have L: "min_commits_run (x # xs) g = A @ B"
    by (simp add: A_def B_def g1_def g'_def)
  have fin: "process_all (x # xs) g = process_all xs g'"
    by (simp add: g'_def)
  note ih = Cons.IH [of g', folded B_def]
  have a: "sorted_wrt apart A \<and>
     (\<forall>t \<in> set A. apart (algo_out_t.prev_min_ts (step_algo_output g)) t \<and>
        t \<le> algo_out_t.prev_min_ts (step_algo_output g')) \<and>
     algo_out_t.prev_min_ts (step_algo_output g) \<le> algo_out_t.prev_min_ts (step_algo_output g')"
  proof (cases "fst (process_sample x g) = 1")
    case True
    then have r: "g' = step_algo_run g1"
      using process_sample_cases [of x g] by (simp add: g'_def g1_def)
    have o: "algo_out_t.prev_min_ts (step_algo_output g') = locals.prev_min_ts (detect_upto SAMP_BUFF_LEN g1)"
      by (simp add: r run_output detect_loop_def)
    have m: "algo_out_t.prev_min_ts (step_algo_output g) \<le> locals.prev_min_ts (detect_upto SAMP_BUFF_LEN g1)"
      using counts_upto_mono(4) [of 0 SAMP_BUFF_LEN g1]
      by (simp add: detect_upto_0 init_locals_fields fr)
    show ?thesis
      using min_commits_upto_bounds [of SAMP_BUFF_LEN g1] True m
      by (simp add: A_def o fr)
  next
    case False
    then have "g' = g1"
      using process_sample_cases [of x g] by (simp add: g'_def g1_def)
    with False show ?thesis by (simp add: A_def fr)
  qed
  have le: "algo_out_t.prev_min_ts (step_algo_output g) \<le> algo_out_t.prev_min_ts (step_algo_output g')"
    and le': "algo_out_t.prev_min_ts (step_algo_output g')
       \<le> algo_out_t.prev_min_ts (step_algo_output (process_all xs g'))"
    using a ih by blast+
  have cross: "\<forall>s \<in> set A. \<forall>t \<in> set B. apart s t"
  proof (intro ballI)
    fix s t assume s: "s \<in> set A" and t: "t \<in> set B"
    have "s \<le> algo_out_t.prev_min_ts (step_algo_output g')" using a s by blast
    moreover have "apart (algo_out_t.prev_min_ts (step_algo_output g')) t" using ih t by blast
    ultimately show "apart s t" by (simp add: apart_def)
  qed
  have first: "\<forall>t \<in> set B. apart (algo_out_t.prev_min_ts (step_algo_output g)) t"
  proof
    fix t assume t: "t \<in> set B"
    have "apart (algo_out_t.prev_min_ts (step_algo_output g')) t" using ih t by blast
    with le show "apart (algo_out_t.prev_min_ts (step_algo_output g)) t" by (simp add: apart_def)
  qed
  have last: "\<forall>t \<in> set A. t \<le> algo_out_t.prev_min_ts (step_algo_output (process_all xs g'))"
  proof
    fix t assume t: "t \<in> set A"
    have "t \<le> algo_out_t.prev_min_ts (step_algo_output g')" using a t by blast
    with le' show "t \<le> algo_out_t.prev_min_ts (step_algo_output (process_all xs g'))" by simp
  qed
  have 1: "sorted_wrt apart (A @ B)"
    using a ih cross by (simp add: sorted_wrt_append)
  have 2: "\<forall>t \<in> set (A @ B). apart (algo_out_t.prev_min_ts (step_algo_output g)) t \<and>
      t \<le> algo_out_t.prev_min_ts (step_algo_output (process_all xs g'))"
    using a ih first last by auto
  have 3: "algo_out_t.prev_min_ts (step_algo_output g)
     \<le> algo_out_t.prev_min_ts (step_algo_output (process_all xs g'))"
    using le le' by simp
  show ?case
    unfolding L fin using 1 2 3 by blast
qed


section \<open>The properties\<close>












text \<open>
  C5. For each kind of extremum, a commit is admitted only if the timestamp of the
  candidate exceeds the stored timestamp of that kind by more than
  \<open>NO_DETECT_DUR_SEC = 0.2\<close>, and the commit stores the candidate's timestamp. The
  stored timestamp never decreases, so it is never before the last commit of its kind.
  Hence in every run of the driver, from any state, any two maximum commits are more
  than 0.2 s apart, and so are any two minimum commits: of two extrema of one kind
  whose timestamps are closer than that, at most one is committed.
\<close>

theorem dead_time_gate:
  "sorted_wrt apart (max_commits_run xs g)
   \<and> sorted_wrt apart (min_commits_run xs g)
   \<and> (count_max_det (detect_upto (Suc i) g) \<noteq> count_max_det (detect_upto i g)
      \<longrightarrow> apart (locals.prev_max_ts (detect_upto i g)) (TimeStamps (deriv_loop g) ! i)
        \<and> locals.prev_max_ts (detect_upto (Suc i) g) = TimeStamps (deriv_loop g) ! i)
   \<and> (count_min_det (detect_upto (Suc i) g) \<noteq> count_min_det (detect_upto i g)
      \<longrightarrow> apart (locals.prev_min_ts (detect_upto i g)) (TimeStamps (deriv_loop g) ! i)
        \<and> locals.prev_min_ts (detect_upto (Suc i) g) = TimeStamps (deriv_loop g) ! i)
   \<and> locals.prev_max_ts (detect_upto i g) \<le> locals.prev_max_ts (detect_upto (Suc i) g)
   \<and> locals.prev_min_ts (detect_upto i g) \<le> locals.prev_min_ts (detect_upto (Suc i) g)
   \<and> apart s t = (s + 2 / 10 < t)"
proof -
  let ?ad = "AccDer (deriv_loop g)" and ?af = "AccFilt (deriv_loop g)"
    and ?ts = "TimeStamps (deriv_loop g)" and ?l = "detect_upto i g"
  let ?b = "detect_body ?ad ?af ?ts i ?l"
  have 1: "sorted_wrt apart (max_commits_run xs g)"
    using max_commits_run_bounds [of xs g] by blast
  have 2: "sorted_wrt apart (min_commits_run xs g)"
    using min_commits_run_bounds [of xs g] by blast
  have 3: "count_max_det ?b \<noteq> count_max_det ?l
      \<longrightarrow> apart (locals.prev_max_ts ?l) (?ts ! i) \<and> locals.prev_max_ts ?b = ?ts ! i"
  proof
    assume c: "count_max_det ?b \<noteq> count_max_det ?l"
    have "max_gate ?ad ?ts i ?l" by (rule detect_body_max_commit(1) [OF c])
    then have "apart (locals.prev_max_ts ?l) (?ts ! i)"
      by (simp add: max_gate_def apart_def)
    then show "apart (locals.prev_max_ts ?l) (?ts ! i) \<and> locals.prev_max_ts ?b = ?ts ! i"
      using detect_body_max_commit(6) [OF c] by simp
  qed
  have 4: "count_min_det ?b \<noteq> count_min_det ?l
      \<longrightarrow> apart (locals.prev_min_ts ?l) (?ts ! i) \<and> locals.prev_min_ts ?b = ?ts ! i"
  proof
    assume c: "count_min_det ?b \<noteq> count_min_det ?l"
    have "min_gate ?ad ?ts i ?l" by (rule detect_body_min_commit(1) [OF c])
    then have "apart (locals.prev_min_ts ?l) (?ts ! i)"
      by (simp add: min_gate_def apart_def)
    then show "apart (locals.prev_min_ts ?l) (?ts ! i) \<and> locals.prev_min_ts ?b = ?ts ! i"
      using detect_body_min_commit(5) [OF c] by simp
  qed
  have 5: "locals.prev_max_ts ?l \<le> locals.prev_max_ts ?b"
    by (rule detect_body_ts_mono)
  have 6: "locals.prev_min_ts ?l \<le> locals.prev_min_ts ?b"
    by (rule detect_body_ts_mono)
  have 7: "apart s t = (s + 2 / 10 < t)"
    by (simp add: apart_def NO_DETECT_DUR_SEC_def)
  from 1 2 3 4 5 6 7 show ?thesis unfolding detect_upto_Suc by (intro conjI)
qed

theorem dead_time_gate_witness:
  "count_max_det (detect_upto 3 one_step) \<noteq> count_max_det (detect_upto 2 one_step)
   \<and> apart (locals.prev_max_ts (detect_upto 2 one_step)) (TimeStamps (deriv_loop one_step) ! 2)
   \<and> count_min_det (detect_upto 9 one_step) \<noteq> count_min_det (detect_upto 8 one_step)
   \<and> apart (locals.prev_min_ts (detect_upto 8 one_step)) (TimeStamps (deriv_loop one_step) ! 8)"
proof -
  have s: "Suc 2 = 3" "Suc 8 = 9" by simp_all
  have a: "count_max_det (detect_upto 3 one_step) \<noteq> count_max_det (detect_upto 2 one_step)"
    "count_min_det (detect_upto 9 one_step) \<noteq> count_min_det (detect_upto 8 one_step)"
    by (simp_all add: one_step_upto_2 one_step_upto_3 one_step_upto_8 one_step_upto_9)
  show ?thesis
    using dead_time_gate [of "[]" one_step 2] dead_time_gate [of "[]" one_step 8] a
    unfolding s by blast
qed

text \<open>
  C6. One call of the preprocessing step filters \<open>ary\<close> with the low-pass filter,
  stores the result and the timestamp at index \<open>count\<close> of the frame buffer, and
  advances \<open>count\<close>; it returns 1 and resets \<open>count\<close> to 0 exactly when \<open>count\<close>
  reaches \<open>N = fs / BUFF_FACTOR = 52\<close>, and returns 0 otherwise. Starting from the
  initial state that is on every 52nd sample, and the detector runs on exactly those
  calls.
\<close>

theorem preproc_spec:
  "SAMP_BUFF_LEN = SENSOR_SAMP_FREQ div BUFF_FACTOR \<and> SAMP_BUFF_LEN = 52
   \<and> lp_filter_y (snd (step_algo_preproc t ax ay az gx gy gz g)) = snd (apply_filter (lp_filter_y g) ay)
   \<and> AccBuff_CHY (snd (step_algo_preproc t ax ay az gx gy gz g))
       = (AccBuff_CHY g)[count g := fst (apply_filter (lp_filter_y g) ay)]
   \<and> AccBuff_TS (snd (step_algo_preproc t ax ay az gx gy gz g)) = (AccBuff_TS g)[count g := t]
   \<and> fst (step_algo_preproc t ax ay az gx gy gz g) = (if count g + 1 = SAMP_BUFF_LEN then 1 else 0)
   \<and> count (snd (step_algo_preproc t ax ay az gx gy gz g))
       = (if count g + 1 = SAMP_BUFF_LEN then 0 else count g + 1)
   \<and> fst (process_sample x (process_all xs init_state))
       = (if (length xs + 1) mod SAMP_BUFF_LEN = 0 then 1 else 0)
   \<and> snd (process_sample x g)
       = (if fst (step_algo_preproc (timestamp x) (arx x) (ary x) (arz x) (grx x) (gry x) (grz x) g) = 1
          then step_algo_run
            (snd (step_algo_preproc (timestamp x) (arx x) (ary x) (arz x) (grx x) (gry x) (grz x) g))
          else snd (step_algo_preproc (timestamp x) (arx x) (ary x) (arz x) (grx x) (gry x) (grz x) g))"
proof -
  have "SAMP_BUFF_LEN = SENSOR_SAMP_FREQ div BUFF_FACTOR"
    by (rule SAMP_BUFF_LEN_def)
  moreover have "fst (process_sample x (process_all xs init_state))
       = (if (length xs + 1) mod SAMP_BUFF_LEN = 0 then 1 else 0)"
    unfolding SAMP_BUFF_LEN_52 by (rule preproc_flag_all)
  moreover have "snd (process_sample x g)
       = (if fst (step_algo_preproc (timestamp x) (arx x) (ary x) (arz x) (grx x) (gry x) (grz x) g) = 1
          then step_algo_run
            (snd (step_algo_preproc (timestamp x) (arx x) (ary x) (arz x) (grx x) (gry x) (grz x) g))
          else snd (step_algo_preproc (timestamp x) (arx x) (ary x) (arz x) (grx x) (gry x) (grz x) g))"
    by (simp add: process_sample_def split_beta)
  ultimately show ?thesis
    by (simp add: preproc_call SAMP_BUFF_LEN_52)
qed

text \<open>
  C7. For every filter state and every input, \<open>apply_filter\<close> returns
  \<open>b0*x + b1*x_prev + b2*x_prev_prev - a1*y_prev - a2*y_prev_prev\<close>, shifts the two
  input and the two output histories, and changes no other field of the filter.
\<close>

theorem apply_filter_spec:
  "fst (apply_filter f x) =
     b0 f * x + b1 f * prev_in f + b2 f * prev_prev_in f
       - a1 f * prev_out f - a2 f * prev_prev_out f
   \<and> snd (apply_filter f x) =
     f\<lparr>prev_prev_in := prev_in f, prev_in := x,
       prev_prev_out := prev_out f, prev_out := fst (apply_filter f x)\<rparr>
   \<and> b0 (snd (apply_filter f x)) = b0 f
   \<and> b1 (snd (apply_filter f x)) = b1 f
   \<and> b2 (snd (apply_filter f x)) = b2 f
   \<and> a1 (snd (apply_filter f x)) = a1 f
   \<and> a2 (snd (apply_filter f x)) = a2 f
   \<and> TC_samples (snd (apply_filter f x)) = TC_samples f"
  by (simp add: apply_filter_def Let_def)



text \<open>
  C9. Two sample sequences with the same timestamps and the same \<open>ary\<close> values give the
  same outputs at every sample, and the same final state, whatever their \<open>arx\<close>,
  \<open>arz\<close>, \<open>grx\<close>, \<open>gry\<close> and \<open>grz\<close> values are.
\<close>

theorem unused_channels_ignored:
  assumes "map timestamp xs = map timestamp ys" and "map ary xs = map ary ys"
  shows "process_trace xs g = process_trace ys g \<and> process_all xs g = process_all ys g"
  using assms by (rule process_agree)

theorem unused_channels_ignored_witness:
  "map timestamp [\<lparr>timestamp = 1 / 104, arx = 1, ary = 981 / 100, arz = 2, grx = 3, gry = 4, grz = 5\<rparr>]
     = map timestamp [\<lparr>timestamp = 1 / 104, arx = 0, ary = 981 / 100, arz = 0, grx = 0, gry = 0, grz = 0\<rparr>]
   \<and> map ary [\<lparr>timestamp = 1 / 104, arx = 1, ary = 981 / 100, arz = 2, grx = 3, gry = 4, grz = 5\<rparr>]
     = map ary [\<lparr>timestamp = 1 / 104, arx = 0, ary = 981 / 100, arz = 0, grx = 0, gry = 0, grz = 0\<rparr>]
   \<and> process_trace [\<lparr>timestamp = 1 / 104, arx = 1, ary = 981 / 100, arz = 2, grx = 3, gry = 4, grz = 5\<rparr>] init_state
     = process_trace [\<lparr>timestamp = 1 / 104, arx = 0, ary = 981 / 100, arz = 0, grx = 0, gry = 0, grz = 0\<rparr>] init_state"
  using unused_channels_ignored
    [of "[\<lparr>timestamp = 1 / 104, arx = 1, ary = 981 / 100, arz = 2, grx = 3, gry = 4, grz = 5\<rparr>]"
        "[\<lparr>timestamp = 1 / 104, arx = 0, ary = 981 / 100, arz = 0, grx = 0, gry = 0, grz = 0\<rparr>]"
        init_state]
  by simp

text \<open>
  C10, as the code has it. In a batch without a maximum and without a minimum commit,
  \<open>step_algo_run\<close> leaves \<open>prev_max\<close>, \<open>prev_min\<close>, \<open>step_count\<close> and the
  per-class counters unchanged. \<open>prev_max_ts\<close> and \<open>prev_min_ts\<close> do not decrease,
  and each is either unchanged or has been moved by the period clamp to the timestamp
  of a candidate of the batch minus \<open>MAX_TIME_PERIOD_SEC\<close>.
\<close>

theorem no_commit_frame:
  assumes "count_max_det (detect_loop g) = 0" and "count_min_det (detect_loop g) = 0"
  shows "prev_max (step_algo_output (step_algo_run g)) = prev_max (step_algo_output g)
     \<and> prev_min (step_algo_output (step_algo_run g)) = prev_min (step_algo_output g)
     \<and> step_count (step_algo_output (step_algo_run g)) = step_count (step_algo_output g)
     \<and> num_steps_walk (step_algo_run g) = num_steps_walk g
     \<and> num_steps_run (step_algo_run g) = num_steps_run g
     \<and> num_steps_hop (step_algo_run g) = num_steps_hop g
     \<and> algo_out_t.prev_max_ts (step_algo_output g)
          \<le> algo_out_t.prev_max_ts (step_algo_output (step_algo_run g))
     \<and> algo_out_t.prev_min_ts (step_algo_output g)
          \<le> algo_out_t.prev_min_ts (step_algo_output (step_algo_run g))
     \<and> (algo_out_t.prev_max_ts (step_algo_output (step_algo_run g))
           = algo_out_t.prev_max_ts (step_algo_output g)
         \<or> (\<exists>i<SAMP_BUFF_LEN. algo_out_t.prev_max_ts (step_algo_output (step_algo_run g))
               = TimeStamps (deriv_loop g) ! i - MAX_TIME_PERIOD_SEC))
     \<and> (algo_out_t.prev_min_ts (step_algo_output (step_algo_run g))
           = algo_out_t.prev_min_ts (step_algo_output g)
         \<or> (\<exists>i<SAMP_BUFF_LEN. algo_out_t.prev_min_ts (step_algo_output (step_algo_run g))
               = TimeStamps (deriv_loop g) ! i - MAX_TIME_PERIOD_SEC))"
proof -
  have mx: "count_max_det (detect_upto SAMP_BUFF_LEN g) = 0"
    and mn: "count_min_det (detect_upto SAMP_BUFF_LEN g) = 0"
    using assms by (simp_all add: detect_loop_def)
  have a: "prev_max_val (detect_loop g) = prev_max (step_algo_output g)
     \<and> (locals.prev_max_ts (detect_loop g) = algo_out_t.prev_max_ts (step_algo_output g)
        \<or> (\<exists>i<SAMP_BUFF_LEN. locals.prev_max_ts (detect_loop g)
              = TimeStamps (deriv_loop g) ! i - MAX_TIME_PERIOD_SEC))"
    unfolding detect_loop_def by (rule no_max_commit_upto [OF mx]) simp
  have b: "prev_min_val (detect_loop g) = prev_min (step_algo_output g)
     \<and> (locals.prev_min_ts (detect_loop g) = algo_out_t.prev_min_ts (step_algo_output g)
        \<or> (\<exists>i<SAMP_BUFF_LEN. locals.prev_min_ts (detect_loop g)
              = TimeStamps (deriv_loop g) ! i - MAX_TIME_PERIOD_SEC))"
    unfolding detect_loop_def by (rule no_min_commit_upto [OF mn]) simp
  have "locals.prev_max_ts (detect_upto 0 g) \<le> locals.prev_max_ts (detect_upto SAMP_BUFF_LEN g)"
    "locals.prev_min_ts (detect_upto 0 g) \<le> locals.prev_min_ts (detect_upto SAMP_BUFF_LEN g)"
    by (rule counts_upto_mono, simp)+
  then have m: "algo_out_t.prev_max_ts (step_algo_output g) \<le> locals.prev_max_ts (detect_loop g)"
    "algo_out_t.prev_min_ts (step_algo_output g) \<le> locals.prev_min_ts (detect_loop g)"
    by (simp_all add: detect_upto_0 init_locals_fields detect_loop_def)
  show ?thesis
    using a b m run_class_counters_unchanged [OF assms(2)] assms(2)
    by (simp add: run_output)
qed

theorem no_commit_frame_witness:
  "count_max_det (detect_loop at_rest) = 0 \<and> count_min_det (detect_loop at_rest) = 0
   \<and> prev_max (step_algo_output (step_algo_run at_rest)) = prev_max (step_algo_output at_rest)
   \<and> step_count (step_algo_output (step_algo_run at_rest)) = step_count (step_algo_output at_rest)"
  using no_commit_frame [of at_rest] at_rest_loop(1,2) by blast

text \<open>
  Without the exception for the clamp the statement fails: in the state \<open>clamp_only\<close> (signal at -2, stored previous
  maximum -1, timestamps from 2 s) the batch commits nothing, yet the period clamp moves
  \<open>prev_max_ts\<close> from 0 to 1/2 and \<open>prev_min_ts\<close> from 0 to 27/52.
\<close>

theorem no_commit_frame_counterexample:
  "count_max_det (detect_loop clamp_only) = 0 \<and> count_min_det (detect_loop clamp_only) = 0
   \<and> algo_out_t.prev_max_ts (step_algo_output clamp_only) = 0
   \<and> algo_out_t.prev_max_ts (step_algo_output (step_algo_run clamp_only)) = 1 / 2
   \<and> algo_out_t.prev_min_ts (step_algo_output clamp_only) = 0
   \<and> algo_out_t.prev_min_ts (step_algo_output (step_algo_run clamp_only)) = 27 / 52"
  by (simp add: run_output clamp_only_loop) (simp add: clamp_only_def wiggle_estimates)

end
